theory Spec2Isabelle
  imports Main
begin

section \<open>Payloads of the game API\<close>

text \<open>
  The three payloads are JSON documents. Each field that the report reads is either
  absent (\<open>None\<close>) or present with a value of the type the API documents for it.
  \<open>d.get(k, default)\<close> is a case distinction on the option, \<open>d[k]\<close> raises
  \<open>KeyError\<close> on an absent field.
\<close>

datatype py_error = KeyError string | IndexError | ValueError

record participant =
  p_tag :: "string option"
  p_name :: "string option"
  p_fame :: "int option"
  p_decksUsed :: "int option"

text \<open>\<open>p.get('decksUsed', 0)\<close> and \<open>p.get('fame', 0)\<close>.\<close>

definition get_decksUsed :: "participant \<Rightarrow> int" where
  "get_decksUsed p = (case p_decksUsed p of None \<Rightarrow> 0 | Some d \<Rightarrow> d)"

definition get_fame :: "participant \<Rightarrow> int" where
  "get_fame p = (case p_fame p of None \<Rightarrow> 0 | Some f \<Rightarrow> f)"

section \<open>The benchmark estimator\<close>

text \<open>
  \<open>collections.Counter\<close> is a dictionary that keeps insertion order: counting an
  element that is already a key increments its count in place, a new element is appended.
\<close>

fun counter_incr :: "int \<Rightarrow> (int \<times> nat) list \<Rightarrow> (int \<times> nat) list" where
  "counter_incr x [] = [(x, 1)]"
| "counter_incr x ((k, c) # kcs) =
     (if k = x then (k, c + 1) # kcs else (k, c) # counter_incr x kcs)"

definition Counter :: "int list \<Rightarrow> (int \<times> nat) list" where
  "Counter xs = foldl (\<lambda>d x. counter_incr x d) [] xs"

text \<open>
  \<open>most_common(1)\<close> is \<open>heapq.nlargest(1, items, key=count)\<close>, which for one element
  is \<open>max(items, key=count)\<close>: the running best is replaced only by a strictly
  larger count, so the first item of maximal count wins. The result is a list of
  at most one item.
\<close>

fun max_by_count :: "(int \<times> nat) \<Rightarrow> (int \<times> nat) list \<Rightarrow> (int \<times> nat)" where
  "max_by_count best [] = best"
| "max_by_count best (kc # kcs) =
     max_by_count (if snd best < snd kc then kc else best) kcs"

definition most_common1 :: "(int \<times> nat) list \<Rightarrow> (int \<times> nat) list" where
  "most_common1 d = (case d of [] \<Rightarrow> [] | kc # kcs \<Rightarrow> [max_by_count kc kcs])"

text \<open>\<open>max(xs)\<close> raises \<open>ValueError\<close> on an empty list.\<close>

definition py_max :: "int list \<Rightarrow> py_error + int" where
  "py_max xs = (case xs of [] \<Rightarrow> Inl ValueError | x # ys \<Rightarrow> Inr (foldl max x ys))"

text \<open>\<open>deck_counts.most_common(1)[0][0]\<close>; the index \<open>[0]\<close> raises on an empty list.\<close>

definition most_common_attacks :: "int list \<Rightarrow> py_error + int" where
  "most_common_attacks decks_used_list =
     (case most_common1 (Counter decks_used_list) of
        [] \<Rightarrow> Inl IndexError
      | kc # _ \<Rightarrow> Inr (fst kc))"

definition decks_used_list :: "participant list \<Rightarrow> int list" where
  "decks_used_list participants =
     map get_decksUsed (filter (\<lambda>p. get_decksUsed p > 0) participants)"

definition calculate_fair_benchmark :: "participant list \<Rightarrow> py_error + int" where
  "calculate_fair_benchmark participants =
     (if participants = [] then Inr 16
      else if decks_used_list participants = [] then Inr 16
      else
        case py_max (decks_used_list participants) of
          Inl e \<Rightarrow> Inl e
        | Inr max_attacks \<Rightarrow>
            (case most_common_attacks (decks_used_list participants) of
               Inl e \<Rightarrow> Inl e
             | Inr mca \<Rightarrow>
                 if mca \<in> {4, 8, 12} \<and> mca < max_attacks then Inr mca
                 else Inr max_attacks))"

subsection \<open>The mode as the specification words it\<close>

text \<open>
  The position at which a value is first encountered in a sequence, and the mode with
  ties broken towards the value first encountered: a value of the sequence whose
  frequency no other value exceeds, and which is encountered before every other value
  of the same frequency.
\<close>

definition first_index :: "int list \<Rightarrow> int \<Rightarrow> nat" where
  "first_index xs x = length (takeWhile (\<lambda>y. y \<noteq> x) xs)"

definition first_mode :: "int list \<Rightarrow> int \<Rightarrow> bool" where
  "first_mode xs m \<longleftrightarrow>
     m \<in> set xs \<and>
     (\<forall>y \<in> set xs. count_list xs y \<le> count_list xs m) \<and>
     (\<forall>y \<in> set xs. y \<noteq> m \<and> count_list xs y = count_list xs m
        \<longrightarrow> first_index xs m < first_index xs y)"

text \<open>
  The position in the participant list of the first participant with a given attack
  count, and a participant record that carries an attack count only.
\<close>

definition first_participant :: "participant list \<Rightarrow> int \<Rightarrow> nat" where
  "first_participant ps v = length (takeWhile (\<lambda>p. get_decksUsed p \<noteq> v) ps)"

definition attacks :: "int \<Rightarrow> participant" where
  "attacks d = \<lparr>p_tag = None, p_name = None, p_fame = None, p_decksUsed = Some d\<rparr>"

section \<open>The roster aggregator\<close>

subsection \<open>The three payloads\<close>

text \<open>
  A top-level payload is a JSON object; besides the field that the aggregation reads it
  may hold other keys (the clan's name and badge, the state of the war, paging
  information), listed in the \<open>other_keys\<close> field. Python treats an object as true
  exactly when it has at least one key. The API client returns \<open>None\<close> on failure.
\<close>

record member =
  m_tag :: "string option"
  m_name :: "string option"

record clan_data =
  memberList :: "member list option"
  clan_other_keys :: "string list"

record war_clan =
  c_tag :: "string option"
  c_participants :: "participant list option"

record current_war_data =
  cw_clan :: "war_clan option"
  cw_other_keys :: "string list"

record standing =
  s_clan :: "war_clan option"

record war =
  createdDate :: "string option"
  standings :: "standing list option"

record war_log_data =
  items :: "war list option"
  log_other_keys :: "string list"

definition clan_data_truthy :: "clan_data option \<Rightarrow> bool" where
  "clan_data_truthy d =
     (case d of None \<Rightarrow> False | Some c \<Rightarrow> memberList c \<noteq> None \<or> clan_other_keys c \<noteq> [])"

definition current_war_data_truthy :: "current_war_data option \<Rightarrow> bool" where
  "current_war_data_truthy d =
     (case d of None \<Rightarrow> False | Some c \<Rightarrow> cw_clan c \<noteq> None \<or> cw_other_keys c \<noteq> [])"

definition war_log_data_truthy :: "war_log_data option \<Rightarrow> bool" where
  "war_log_data_truthy d =
     (case d of None \<Rightarrow> False | Some l \<Rightarrow> items l \<noteq> None \<or> log_other_keys l \<noteq> [])"

text \<open>The lookups with a default: \<open>clan_data.get('memberList', [])\<close> and its like.\<close>

definition get_memberList :: "clan_data \<Rightarrow> member list" where
  "get_memberList c = (case memberList c of None \<Rightarrow> [] | Some ms \<Rightarrow> ms)"

definition get_items :: "war_log_data \<Rightarrow> war list" where
  "get_items l = (case items l of None \<Rightarrow> [] | Some ws \<Rightarrow> ws)"

definition get_standings :: "war \<Rightarrow> standing list" where
  "get_standings w = (case standings w of None \<Rightarrow> [] | Some ss \<Rightarrow> ss)"

text \<open>\<open>x.get('clan', {}).get('tag')\<close> and \<open>x.get('clan', {}).get('participants', [])\<close>.\<close>

definition clan_tag_of :: "war_clan option \<Rightarrow> string option" where
  "clan_tag_of c = (case c of None \<Rightarrow> None | Some cl \<Rightarrow> c_tag cl)"

definition clan_participants :: "war_clan option \<Rightarrow> participant list" where
  "clan_participants c =
     (case c of None \<Rightarrow> []
      | Some cl \<Rightarrow> (case c_participants cl of None \<Rightarrow> [] | Some ps \<Rightarrow> ps))"

subsection \<open>Player records\<close>

record war_entry =
  fame :: int
  decksUsed :: int

record player =
  name :: string
  current_war_decks_used :: int
  current_war_fame :: int
  total_war_fame :: int
  total_decks_used :: int
  war_history :: "string \<rightharpoonup> war_entry"

text \<open>
  The registry \<open>player_stats\<close> is a dictionary keyed by tag. A key is a string, or
  Python's \<open>None\<close> where \<open>p.get('tag')\<close> found no tag.
\<close>

type_synonym registry = "string option \<rightharpoonup> player"

definition new_player :: "string \<Rightarrow> player" where
  "new_player n =
     \<lparr>name = n, current_war_decks_used = 0, current_war_fame = 0,
      total_war_fame = 0, total_decks_used = 0, war_history = Map.empty\<rparr>"

definition former_member :: string where
  "former_member = ''Former Member (*)''"

subsection \<open>Seeding the registry from the roster\<close>

text \<open>
  \<open>{member['tag'] for member in ...}\<close> and the dictionary comprehension after it:
  both subscript the member entry and raise \<open>KeyError\<close> when the field is absent.
  A later entry with the same tag replaces an earlier one.
\<close>

fun current_member_tags :: "member list \<Rightarrow> py_error + string set" where
  "current_member_tags [] = Inr {}"
| "current_member_tags (m # ms) =
     (case m_tag m of
        None \<Rightarrow> Inl (KeyError ''tag'')
      | Some t \<Rightarrow>
          (case current_member_tags ms of Inl e \<Rightarrow> Inl e | Inr ts \<Rightarrow> Inr (insert t ts)))"

fun seed_player_stats :: "registry \<Rightarrow> member list \<Rightarrow> py_error + registry" where
  "seed_player_stats reg [] = Inr reg"
| "seed_player_stats reg (m # ms) =
     (case m_tag m of
        None \<Rightarrow> Inl (KeyError ''tag'')
      | Some t \<Rightarrow>
          (case m_name m of
             None \<Rightarrow> Inl (KeyError ''name'')
           | Some n \<Rightarrow> seed_player_stats (reg(Some t \<mapsto> new_player n)) ms))"

subsection \<open>The current-war overlay\<close>

text \<open>
  \<open>if p.get('tag') in player_stats\<close> guards two assignments through \<open>p['tag']\<close>,
  which raises when the participant has no tag field.
\<close>

fun overlay_current_war :: "registry \<Rightarrow> participant list \<Rightarrow> py_error + registry" where
  "overlay_current_war reg [] = Inr reg"
| "overlay_current_war reg (p # ps) =
     (case reg (p_tag p) of
        None \<Rightarrow> overlay_current_war reg ps
      | Some pl \<Rightarrow>
          (case p_tag p of
             None \<Rightarrow> Inl (KeyError ''tag'')
           | Some t \<Rightarrow>
               overlay_current_war
                 (reg(Some t \<mapsto> pl\<lparr>current_war_decks_used := get_decksUsed p,
                                      current_war_fame := get_fame p\<rparr>)) ps))"

subsection \<open>War identifiers\<close>

text \<open>\<open>str(n)\<close> for a natural number, in decimal.\<close>

definition digit_char :: "nat \<Rightarrow> char" where
  "digit_char d = ''0123456789'' ! d"

fun str_nat :: "nat \<Rightarrow> string" where
  "str_nat n = (if n < 10 then [digit_char n] else str_nat (n div 10) @ [digit_char (n mod 10)])"

declare str_nat.simps [simp del]

text \<open>\<open>war.get('createdDate', 'N/A').split('T')[0]\<close>: the text before the first \<open>T\<close>.\<close>

definition date_part :: "war \<Rightarrow> string" where
  "date_part w =
     takeWhile (\<lambda>c. c \<noteq> CHR ''T'') (case createdDate w of None \<Rightarrow> ''N/A'' | Some d \<Rightarrow> d)"

definition war_id :: "nat \<Rightarrow> war \<Rightarrow> string" where
  "war_id i w = ''War '' @ str_nat (i + 1) @ '' ('' @ date_part w @ '')''"

definition war_ids :: "war list \<Rightarrow> string list" where
  "war_ids war_log_items = map (\<lambda>(i, w). war_id i w) (enumerate 0 war_log_items)"

definition py_nth :: "'a list \<Rightarrow> nat \<Rightarrow> py_error + 'a" where
  "py_nth xs i = (if i < length xs then Inr (xs ! i) else Inl IndexError)"

subsection \<open>Former members\<close>

text \<open>
  Every participant of every standing of the clan under report is added to
  \<open>all_participants\<close>; a tag that is not yet a key gets the placeholder record.
\<close>

definition is_clan_standing :: "string \<Rightarrow> standing \<Rightarrow> bool" where
  "is_clan_standing clan_tag s \<longleftrightarrow> clan_tag_of (s_clan s) = Some clan_tag"

definition standing_participants :: "string \<Rightarrow> war \<Rightarrow> participant list" where
  "standing_participants clan_tag w =
     concat (map (\<lambda>s. clan_participants (s_clan s))
       (filter (is_clan_standing clan_tag) (get_standings w)))"

definition all_participants :: "string \<Rightarrow> registry \<Rightarrow> war list \<Rightarrow> string option set" where
  "all_participants clan_tag reg war_log_items =
     dom reg \<union> set (map p_tag (concat (map (standing_participants clan_tag) war_log_items)))"

definition add_former_members :: "string option set \<Rightarrow> registry \<Rightarrow> registry" where
  "add_former_members tags reg =
     (\<lambda>tag. if tag \<in> tags \<and> reg tag = None then Some (new_player former_member)
            else reg tag)"

subsection \<open>The war loop\<close>

definition TOP_CLANS_FOR_BENCHMARK :: "string list" where
  "TOP_CLANS_FOR_BENCHMARK = [''#2V2VRRLJ'', ''#8UCRLJ0J'', ''#8Y8UG0JJ'', ''#YUYP9229'']"

text \<open>The participants of the first standing of the clan under report (the loop breaks).\<close>

definition war_participants :: "string \<Rightarrow> war \<Rightarrow> participant list" where
  "war_participants clan_tag w =
     (case find (is_clan_standing clan_tag) (get_standings w) of
        None \<Rightarrow> []
      | Some s \<Rightarrow> clan_participants (s_clan s))"

definition war_benchmark :: "string \<Rightarrow> participant list \<Rightarrow> py_error + int" where
  "war_benchmark clan_tag ps =
     (if clan_tag \<in> set TOP_CLANS_FOR_BENCHMARK then calculate_fair_benchmark ps else Inr 16)"

text \<open>\<open>for tag in player_stats: player_stats[tag]['war_history'][war_id] = {0, 0}\<close>.\<close>

definition zero_history :: "string \<Rightarrow> registry \<Rightarrow> registry" where
  "zero_history wid reg =
     (\<lambda>tag. map_option
        (\<lambda>pl. pl\<lparr>war_history := (war_history pl)(wid \<mapsto> \<lparr>fame = 0, decksUsed = 0\<rparr>)\<rparr>)
        (reg tag))"

text \<open>\<open>f"{p.get('name')} (*)"\<close>; an absent name is formatted as \<open>None\<close>.\<close>

definition fmt_name :: "participant \<Rightarrow> string" where
  "fmt_name p = (case p_name p of None \<Rightarrow> ''None'' | Some n \<Rightarrow> n) @ '' (*)''"

text \<open>The body of \<open>for p in war_participants\<close> for a participant whose tag is a key.\<close>

definition record_participant :: "string \<Rightarrow> participant \<Rightarrow> player \<Rightarrow> player" where
  "record_participant wid p pl =
     pl\<lparr>name := (if name pl = former_member then fmt_name p else name pl),
        war_history := (war_history pl)(wid \<mapsto> \<lparr>fame = get_fame p, decksUsed = get_decksUsed p\<rparr>),
        total_war_fame := total_war_fame pl + get_fame p,
        total_decks_used := total_decks_used pl + get_decksUsed p\<rparr>"

fun record_participants :: "string \<Rightarrow> registry \<Rightarrow> participant list \<Rightarrow> registry" where
  "record_participants wid reg [] = reg"
| "record_participants wid reg (p # ps) =
     (case reg (p_tag p) of
        None \<Rightarrow> record_participants wid reg ps
      | Some pl \<Rightarrow>
          record_participants wid (reg(p_tag p \<mapsto> record_participant wid p pl)) ps)"

text \<open>One iteration of \<open>for i, war in enumerate(war_log_items)\<close>, and the loop.\<close>

definition process_war ::
  "string \<Rightarrow> string list \<Rightarrow> registry \<times> (string \<rightharpoonup> int) \<Rightarrow> nat \<times> war
     \<Rightarrow> py_error + registry \<times> (string \<rightharpoonup> int)" where
  "process_war clan_tag ids st iw =
     (case py_nth ids (fst iw) of
        Inl e \<Rightarrow> Inl e
      | Inr wid \<Rightarrow>
          (case war_benchmark clan_tag (war_participants clan_tag (snd iw)) of
             Inl e \<Rightarrow> Inl e
           | Inr benchmark \<Rightarrow>
               Inr (record_participants wid (zero_history wid (fst st))
                      (war_participants clan_tag (snd iw)),
                    (snd st)(wid \<mapsto> benchmark))))"

fun process_wars ::
  "string \<Rightarrow> string list \<Rightarrow> registry \<times> (string \<rightharpoonup> int) \<Rightarrow> (nat \<times> war) list
     \<Rightarrow> py_error + registry \<times> (string \<rightharpoonup> int)" where
  "process_wars clan_tag ids st [] = Inr st"
| "process_wars clan_tag ids st (iw # iws) =
     (case process_war clan_tag ids st iw of
        Inl e \<Rightarrow> Inl e
      | Inr st' \<Rightarrow> process_wars clan_tag ids st' iws)"

subsection \<open>The report for one clan\<close>

text \<open>
  The registry before the war loop: the seeded roster, overlaid with the current war,
  extended by the former members.
\<close>

definition initial_registry ::
  "string \<Rightarrow> clan_data \<Rightarrow> current_war_data \<Rightarrow> war_log_data \<Rightarrow> py_error + registry" where
  "initial_registry clan_tag cd cwd wld =
     (case current_member_tags (get_memberList cd) of
        Inl e \<Rightarrow> Inl e
      | Inr _ \<Rightarrow>
          (case seed_player_stats Map.empty (get_memberList cd) of
             Inl e \<Rightarrow> Inl e
           | Inr seeded \<Rightarrow>
               (case overlay_current_war seeded (clan_participants (cw_clan cwd)) of
                  Inl e \<Rightarrow> Inl e
                | Inr reg \<Rightarrow>
                    Inr (add_former_members
                           (all_participants clan_tag reg (get_items wld)) reg))))"

text \<open>The registry and the benchmarks after the first \<open>n\<close> iterations of the war loop.\<close>

definition after_wars ::
  "nat \<Rightarrow> string \<Rightarrow> clan_data \<Rightarrow> current_war_data \<Rightarrow> war_log_data
     \<Rightarrow> py_error + registry \<times> (string \<rightharpoonup> int)" where
  "after_wars n clan_tag cd cwd wld =
     (case initial_registry clan_tag cd cwd wld of
        Inl e \<Rightarrow> Inl e
      | Inr reg \<Rightarrow>
          process_wars clan_tag (war_ids (get_items wld)) (reg, Map.empty)
            (take n (enumerate 0 (get_items wld))))"

text \<open>
  What the report is rendered from. The HTML templates themselves are not modelled:
  the error fragment is the constructor \<open>ErrorFragment\<close>, the full section is
  \<open>Report\<close> with the values handed to the four table builders.
\<close>

record report =
  member_tags :: "string set"
  player_stats :: registry
  report_war_ids :: "string list"
  war_benchmarks :: "string \<rightharpoonup> int"

datatype outcome = ErrorFragment | Report report

text \<open>
  The three payloads are the results of the three calls of \<open>get_api_data\<close>, which
  the function makes before anything else.
\<close>

definition generate_html_for_clan ::
  "string \<Rightarrow> clan_data option \<Rightarrow> current_war_data option \<Rightarrow> war_log_data option
     \<Rightarrow> py_error + outcome" where
  "generate_html_for_clan clan_tag clan_data current_war_data war_log_data =
     (if \<not> (clan_data_truthy clan_data \<and> current_war_data_truthy current_war_data
             \<and> war_log_data_truthy war_log_data)
      then Inr ErrorFragment
      else
        case (clan_data, current_war_data, war_log_data) of
          (Some cd, Some cwd, Some wld) \<Rightarrow>
            (case current_member_tags (get_memberList cd) of
               Inl e \<Rightarrow> Inl e
             | Inr tags \<Rightarrow>
                 (case after_wars (length (get_items wld)) clan_tag cd cwd wld of
                    Inl e \<Rightarrow> Inl e
                  | Inr (reg, benchmarks) \<Rightarrow>
                      Inr (Report \<lparr>member_tags = tags, player_stats = reg,
                                   report_war_ids = war_ids (get_items wld),
                                   war_benchmarks = benchmarks\<rparr>)))
        | _ \<Rightarrow> Inr ErrorFragment)"

section \<open>Notions used in the statements\<close>

text \<open>The participants of a list that carry a given key as their tag.\<close>

definition tagged :: "string option \<Rightarrow> participant list \<Rightarrow> participant list" where
  "tagged k ps = filter (\<lambda>p. p_tag p = k) ps"

text \<open>
  The tags of the current roster, and the participants of all standings of the clan
  under report in the war log, in the order of the log.
\<close>

definition roster_tags :: "clan_data \<Rightarrow> string set" where
  "roster_tags cd = Option.these (m_tag ` set (get_memberList cd))"

definition log_participants :: "string \<Rightarrow> war_log_data \<Rightarrow> participant list" where
  "log_participants clan_tag wld = concat (map (standing_participants clan_tag) (get_items wld))"

text \<open>
  A player's entry for a war with the default of the history table,
  \<open>player['war_history'].get(war_id, {'decksUsed': 0, 'fame': 0})\<close>.
\<close>

definition history_entry :: "player \<Rightarrow> string \<Rightarrow> war_entry" where
  "history_entry pl wid =
     (case war_history pl wid of None \<Rightarrow> \<lparr>fame = 0, decksUsed = 0\<rparr> | Some e \<Rightarrow> e)"

text \<open>A record without cumulative totals and without history, as every new record is.\<close>

definition blank :: "player \<Rightarrow> bool" where
  "blank pl \<longleftrightarrow> total_war_fame pl = 0 \<and> total_decks_used pl = 0 \<and> war_history pl = Map.empty"

text \<open>
  What one iteration of the war loop does to the record under one key: the entry that
  the war leaves in its history, and the record after the iteration, for a war given by
  its identifier and its participants.
\<close>

definition entry_of :: "string option \<Rightarrow> participant list \<Rightarrow> war_entry" where
  "entry_of k ps =
     (if tagged k ps = [] then \<lparr>fame = 0, decksUsed = 0\<rparr>
      else \<lparr>fame = get_fame (last (tagged k ps)), decksUsed = get_decksUsed (last (tagged k ps))\<rparr>)"

definition player_after_war ::
  "string option \<Rightarrow> player \<Rightarrow> string \<times> participant list \<Rightarrow> player" where
  "player_after_war k pl wps =
     foldl (\<lambda>pl p. record_participant (fst wps) p pl)
       (pl\<lparr>war_history := (war_history pl)(fst wps \<mapsto> \<lparr>fame = 0, decksUsed = 0\<rparr>)\<rparr>)
       (tagged k (snd wps))"

text \<open>The identifier and the participants of every logged war, in processing order.\<close>

definition logged_wars :: "string \<Rightarrow> war list \<Rightarrow> (string \<times> participant list) list" where
  "logged_wars clan_tag ws =
     map (\<lambda>(i, w). (war_ids ws ! i, war_participants clan_tag w)) (enumerate 0 ws)"

text \<open>The assignment to the name field in the war loop.\<close>

definition name_update :: "string \<Rightarrow> participant \<Rightarrow> string" where
  "name_update nm p = (if nm = former_member then fmt_name p else nm)"

text \<open>The registry of a report, empty where there is none.\<close>

definition report_registry :: "py_error + outcome \<Rightarrow> registry" where
  "report_registry x = (case x of Inr (Report r) \<Rightarrow> player_stats r | _ \<Rightarrow> Map.empty)"

text \<open>
  The name recorded under a key after the first \<open>n\<close> iterations of the war loop, and
  the first participant of a list that carries a given key as its tag.
\<close>

definition name_after ::
  "nat \<Rightarrow> string \<Rightarrow> clan_data \<Rightarrow> current_war_data \<Rightarrow> war_log_data \<Rightarrow> string option
     \<Rightarrow> string option" where
  "name_after n clan_tag cd cwd wld k =
     (case after_wars n clan_tag cd cwd wld of
        Inl e \<Rightarrow> None
      | Inr st \<Rightarrow> map_option name (fst st k))"

definition first_match :: "string option \<Rightarrow> participant list \<Rightarrow> participant option" where
  "first_match k ps = find (\<lambda>p. p_tag p = k) ps"

subsection \<open>Example payloads\<close>

text \<open>
  A clan \<open>#C\<close> with the roster member Ann; a war log of one war in which Ann and
  the departed Bob took part; a log whose only participant has no tag field; a log of
  one war with two participants without a tag field; a log of two wars in which the
  departed player \<open>#P\<close> reports two different names; an empty clan-info object; a
  roster entry without a tag.
\<close>

definition mk_participant :: "string \<Rightarrow> string \<Rightarrow> int \<Rightarrow> int \<Rightarrow> participant" where
  "mk_participant t n f d = \<lparr>p_tag = Some t, p_name = Some n, p_fame = Some f, p_decksUsed = Some d\<rparr>"

definition mk_war :: "string \<Rightarrow> string \<Rightarrow> participant list \<Rightarrow> war" where
  "mk_war date clan_tag ps =
     \<lparr>createdDate = Some date,
      standings = Some [\<lparr>s_clan = Some \<lparr>c_tag = Some clan_tag, c_participants = Some ps\<rparr>\<rparr>]\<rparr>"

definition ex_clan :: clan_data where
  "ex_clan = \<lparr>memberList = Some [\<lparr>m_tag = Some ''#A'', m_name = Some ''Ann''\<rparr>],
             clan_other_keys = [''tag'', ''name'']\<rparr>"

definition ex_current_war :: current_war_data where
  "ex_current_war =
     \<lparr>cw_clan = Some \<lparr>c_tag = Some ''#C'',
                      c_participants = Some [mk_participant ''#A'' ''Ann'' 100 2]\<rparr>,
      cw_other_keys = [''state'']\<rparr>"

definition ex_war_log :: war_log_data where
  "ex_war_log =
     \<lparr>items = Some [mk_war ''20240101T000000.000Z'' ''#C''
                      [mk_participant ''#A'' ''Ann'' 900 8, mk_participant ''#B'' ''Bob'' 500 4]],
      log_other_keys = []\<rparr>"

definition ex_untagged_log :: war_log_data where
  "ex_untagged_log =
     \<lparr>items = Some [mk_war ''20240101T000000.000Z'' ''#C''
                      [\<lparr>p_tag = None, p_name = Some ''Cy'', p_fame = Some 1, p_decksUsed = Some 1\<rparr>]],
      log_other_keys = []\<rparr>"

definition ex_two_untagged_log :: war_log_data where
  "ex_two_untagged_log =
     \<lparr>items = Some [mk_war ''20240101T000000.000Z'' ''#C''
                      [\<lparr>p_tag = None, p_name = Some ''Cy'', p_fame = Some 100, p_decksUsed = Some 1\<rparr>,
                       \<lparr>p_tag = None, p_name = Some ''Di'', p_fame = Some 200, p_decksUsed = Some 2\<rparr>]],
      log_other_keys = []\<rparr>"

definition ex_renamed_log :: war_log_data where
  "ex_renamed_log =
     \<lparr>items = Some [mk_war ''20240101T000000.000Z'' ''#C''
                      [mk_participant ''#P'' ''Former Member'' 700 8],
                    mk_war ''20240108T000000.000Z'' ''#C''
                      [mk_participant ''#P'' ''Bob'' 600 8]],
      log_other_keys = []\<rparr>"

definition ex_empty_clan :: clan_data where
  "ex_empty_clan = \<lparr>memberList = None, clan_other_keys = []\<rparr>"

definition ex_untagged_clan :: clan_data where
  "ex_untagged_clan =
     \<lparr>memberList = Some [\<lparr>m_tag = None, m_name = Some ''Ann''\<rparr>], clan_other_keys = [''tag'']\<rparr>"

section \<open>Properties of the benchmark estimator\<close>

lemma Counter_snoc: "Counter (xs @ [x]) = counter_incr x (Counter xs)"
  by (simp add: Counter_def)

lemma counter_incr_keys:
  "map fst (counter_incr x d) = (if x \<in> set (map fst d) then map fst d else map fst d @ [x])"
  by (induction d) force+

lemma counter_incr_map_of:
  "map_of (counter_incr x d) =
     (map_of d)(x \<mapsto> (case map_of d x of None \<Rightarrow> 1 | Some c \<Rightarrow> c + 1))"
  by (induction d) (auto simp: fun_eq_iff)

lemma first_index_less: "x \<in> set xs \<Longrightarrow> first_index xs x < length xs"
  unfolding first_index_def
  by (induction xs) auto

lemma first_index_snoc:
  "first_index (xs @ [x]) k =
     (if k \<in> set xs then first_index xs k else if k = x then length xs else Suc (length xs))"
  unfolding first_index_def
  by (auto simp: takeWhile_append)

lemma Counter_keys: "distinct (map fst (Counter xs)) \<and> set (map fst (Counter xs)) = set xs"
proof (induction xs rule: rev_induct)
  case Nil
  show ?case by (simp add: Counter_def)
next
  case (snoc x xs)
  then show ?case
    by (auto simp: Counter_snoc counter_incr_keys)
qed

lemma Counter_map_of:
  "map_of (Counter xs) k = (if k \<in> set xs then Some (count_list xs k) else None)"
proof (induction xs arbitrary: k rule: rev_induct)
  case Nil
  show ?case by (simp add: Counter_def)
next
  case (snoc x xs)
  then show ?case
    by (simp add: Counter_snoc counter_incr_map_of)
qed

lemma Counter_counts: "(k, c) \<in> set (Counter xs) \<Longrightarrow> c = count_list xs k"
proof -
  assume "(k, c) \<in> set (Counter xs)"
  moreover have "distinct (map fst (Counter xs))" using Counter_keys by blast
  ultimately have "map_of (Counter xs) k = Some c" by simp
  then show ?thesis by (simp add: Counter_map_of split: if_splits)
qed

lemma py_max_Max: "xs \<noteq> [] \<Longrightarrow> py_max xs = Inr (Max (set xs))"
proof (cases xs)
  case Nil
  assume "xs \<noteq> []"
  with Nil show ?thesis by simp
next
  case (Cons a list)
  have "foldl max a list = fold max list a"
    by (simp add: foldl_conv_fold max.commute)
  also have "\<dots> = Max (set (a # list))" by (rule Max.set_eq_fold [symmetric])
  finally show ?thesis using Cons by (simp add: py_max_def)
qed

lemma Counter_order:
  "sorted_wrt (\<lambda>a b. first_index xs a < first_index xs b) (map fst (Counter xs))"
proof (induction xs rule: rev_induct)
  case Nil
  show ?case by (simp add: Counter_def)
next
  case (snoc x xs)
  have keys: "set (map fst (Counter xs)) = set xs" using Counter_keys [of xs] by blast
  have old: "sorted_wrt (\<lambda>a b. first_index (xs @ [x]) a < first_index (xs @ [x]) b)
               (map fst (Counter xs))"
  proof (rule sorted_wrt_mono_rel [OF _ snoc.IH])
    fix a b
    assume "a \<in> set (map fst (Counter xs))" "b \<in> set (map fst (Counter xs))"
      and "first_index xs a < first_index xs b"
    then show "first_index (xs @ [x]) a < first_index (xs @ [x]) b"
      unfolding keys by (simp add: first_index_snoc)
  qed
  show ?case
  proof (cases "x \<in> set xs")
    case True
    then have "map fst (Counter (xs @ [x])) = map fst (Counter xs)"
      unfolding Counter_snoc counter_incr_keys keys by simp
    then show ?thesis using old by simp
  next
    case False
    then have eq: "map fst (Counter (xs @ [x])) = map fst (Counter xs) @ [x]"
      unfolding Counter_snoc counter_incr_keys keys by simp
    have "\<forall>a \<in> set (map fst (Counter xs)).
            first_index (xs @ [x]) a < first_index (xs @ [x]) x"
      unfolding keys using False by (simp add: first_index_snoc first_index_less)
    with old show ?thesis
      unfolding eq by (simp add: sorted_wrt_append)
  qed
qed

lemma max_by_count_split:
  "\<exists>pre post. b # kcs = pre @ max_by_count b kcs # post \<and>
     (\<forall>a \<in> set pre. snd a < snd (max_by_count b kcs)) \<and>
     (\<forall>a \<in> set post. snd a \<le> snd (max_by_count b kcs))"
proof (induction kcs arbitrary: b)
  case Nil
  show ?case by (rule exI [of _ "[]"], rule exI [of _ "[]"]) simp
next
  case (Cons kc kcs)
  define b' where "b' = (if snd b < snd kc then kc else b)"
  define e where "e = max_by_count b' kcs"
  from Cons.IH [of b'] obtain pre post where
    sp: "b' # kcs = pre @ e # post" and
    lt: "\<forall>a \<in> set pre. snd a < snd e" and
    le: "\<forall>a \<in> set post. snd a \<le> snd e" unfolding e_def by blast
  have e: "max_by_count b (kc # kcs) = e" by (simp add: e_def b'_def)
  have b'e: "snd b' \<le> snd e"
  proof (cases pre)
    case Nil
    with sp show ?thesis by simp
  next
    case (Cons p pre')
    with sp have "p = b'" by simp
    with lt Cons show ?thesis by simp
  qed
  show ?case unfolding e
  proof (cases "snd b < snd kc")
    case True
    then have b': "b' = kc" by (simp add: b'_def)
    have 1: "b # kc # kcs = (b # pre) @ e # post" using sp b' by simp
    have 2: "\<forall>a \<in> set (b # pre). snd a < snd e" using lt b'e True b' by simp
    show "\<exists>pre post. b # kc # kcs = pre @ e # post \<and>
       (\<forall>a \<in> set pre. snd a < snd e) \<and> (\<forall>a \<in> set post. snd a \<le> snd e)"
      using 1 2 le by blast
  next
    case False
    then have b': "b' = b" by (simp add: b'_def)
    show "\<exists>pre post. b # kc # kcs = pre @ e # post \<and>
       (\<forall>a \<in> set pre. snd a < snd e) \<and> (\<forall>a \<in> set post. snd a \<le> snd e)"
    proof (cases pre)
      case Nil
      with sp b' have eb: "e = b" and pk: "post = kcs" by simp_all
      have 1: "b # kc # kcs = [] @ e # (kc # kcs)" using eb by simp
      have 2: "\<forall>a \<in> set (kc # kcs). snd a \<le> snd e"
        using le False eb pk by simp
      show ?thesis
        by (rule exI [of _ "[]"], rule exI [of _ "kc # kcs"]) (use 1 2 in simp)
    next
      case (Cons p pre')
      with sp b' have pb: "p = b" and k: "kcs = pre' @ e # post" by simp_all
      have 1: "b # kc # kcs = (b # kc # pre') @ e # post" using k by simp
      have "snd b < snd e" using lt Cons pb by simp
      then have 2: "\<forall>a \<in> set (b # kc # pre'). snd a < snd e"
        using lt Cons False by simp
      show ?thesis using 1 2 le by blast
    qed
  qed
qed

lemma most_common_attacks_mode:
  assumes "xs \<noteq> []"
  shows "\<exists>m. most_common_attacks xs = Inr m \<and> first_mode xs m"
proof -
  have keys: "set (map fst (Counter xs)) = set xs" and dist: "distinct (map fst (Counter xs))"
    using Counter_keys [of xs] by blast+
  from assms keys have "Counter xs \<noteq> []" by auto
  then obtain b kcs where d: "Counter xs = b # kcs" by (cases "Counter xs") auto
  define e where "e = max_by_count b kcs"
  from max_by_count_split [of b kcs] obtain pre post where
    sp: "Counter xs = pre @ e # post" and
    lt: "\<forall>a \<in> set pre. snd a < snd e" and
    le: "\<forall>a \<in> set post. snd a \<le> snd e" unfolding e_def d by blast
  have mca: "most_common_attacks xs = Inr (fst e)"
    by (simp add: most_common_attacks_def most_common1_def d e_def)
  have ein: "(fst e, snd e) \<in> set (Counter xs)" using sp by simp
  then have cnt_e: "snd e = count_list xs (fst e)" by (rule Counter_counts)
  have "fst e \<in> set (map fst (Counter xs))" using sp by simp
  then have mem: "fst e \<in> set xs" unfolding keys .
  have each: "(y, count_list xs y) \<in> set (Counter xs)" if "y \<in> set xs" for y
  proof -
    from that have "map_of (Counter xs) y = Some (count_list xs y)"
      by (simp add: Counter_map_of)
    then show ?thesis by (rule map_of_SomeD)
  qed
  have where_y: "(y, count_list xs y) \<in> set pre \<or> (y, count_list xs y) = e
        \<or> (y, count_list xs y) \<in> set post" if "y \<in> set xs" for y
    using each [OF that] unfolding sp by auto
  have maxi: "\<forall>y \<in> set xs. count_list xs y \<le> count_list xs (fst e)"
  proof
    fix y assume y: "y \<in> set xs"
    from where_y [OF y] show "count_list xs y \<le> count_list xs (fst e)"
    proof (elim disjE)
      assume "(y, count_list xs y) \<in> set pre"
      with lt have "snd (y, count_list xs y) < snd e" by blast
      then show ?thesis using cnt_e by simp
    next
      assume "(y, count_list xs y) = e"
      then have "fst e = y" by auto
      then show ?thesis by simp
    next
      assume "(y, count_list xs y) \<in> set post"
      with le have "snd (y, count_list xs y) \<le> snd e" by blast
      then show ?thesis using cnt_e by simp
    qed
  qed
  have ord: "sorted_wrt (\<lambda>a b. first_index xs a < first_index xs b)
               (map fst pre @ fst e # map fst post)"
    using Counter_order [of xs] unfolding sp by simp
  have first: "\<forall>y \<in> set xs. y \<noteq> fst e \<and> count_list xs y = count_list xs (fst e)
                 \<longrightarrow> first_index xs (fst e) < first_index xs y"
  proof (intro ballI impI)
    fix y assume y: "y \<in> set xs" and h: "y \<noteq> fst e \<and> count_list xs y = count_list xs (fst e)"
    have "(y, count_list xs y) \<notin> set pre"
    proof
      assume "(y, count_list xs y) \<in> set pre"
      with lt have "snd (y, count_list xs y) < snd e" by blast
      then show False using cnt_e h by simp
    qed
    moreover have "(y, count_list xs y) \<noteq> e" using h by (metis fst_conv)
    ultimately have yp: "(y, count_list xs y) \<in> set post" using where_y [OF y] by blast
    have "\<forall>a \<in> set post. first_index xs (fst e) < first_index xs (fst a)"
      using ord by (simp add: sorted_wrt_append)
    from this yp have "first_index xs (fst e) < first_index xs (fst (y, count_list xs y))"
      by (rule bspec)
    then show "first_index xs (fst e) < first_index xs y" by simp
  qed
  show ?thesis using mca mem maxi first unfolding first_mode_def by blast
qed

lemma first_mode_unique: "first_mode xs m \<Longrightarrow> first_mode xs m' \<Longrightarrow> m = m'"
  unfolding first_mode_def
  by (metis le_antisym less_asym)

lemma decks_used_list_pos: "d \<in> set (decks_used_list ps) \<Longrightarrow> 0 < d"
  by (auto simp: decks_used_list_def)

lemma decks_used_list_Nil_iff:
  "decks_used_list ps = [] \<longleftrightarrow> (\<forall>p \<in> set ps. get_decksUsed p \<le> 0)"
  by (auto simp: decks_used_list_def filter_empty_conv)

lemma calculate_fair_benchmark_eq:
  assumes "decks_used_list ps \<noteq> []"
  shows "\<exists>m. first_mode (decks_used_list ps) m \<and>
     calculate_fair_benchmark ps =
       Inr (if m \<in> {4, 8, 12} \<and> m < Max (set (decks_used_list ps)) then m
            else Max (set (decks_used_list ps)))"
proof -
  from assms have ne: "ps \<noteq> []" by (auto simp: decks_used_list_def)
  from most_common_attacks_mode [OF assms] obtain m where
    m: "most_common_attacks (decks_used_list ps) = Inr m" and fm: "first_mode (decks_used_list ps) m"
    by blast
  have "calculate_fair_benchmark ps =
       Inr (if m \<in> {4, 8, 12} \<and> m < Max (set (decks_used_list ps)) then m
            else Max (set (decks_used_list ps)))"
    using assms ne m by (simp add: calculate_fair_benchmark_def py_max_Max)
  with fm show ?thesis by blast
qed

lemma decks_used_list_filter:
  "decks_used_list ps = filter (\<lambda>d. 0 < d) (map get_decksUsed ps)"
  by (simp add: decks_used_list_def filter_map comp_def)

lemma first_index_filter:
  "P u \<Longrightarrow> P v \<Longrightarrow>
   first_index (filter P xs) u < first_index (filter P xs) v
     \<longleftrightarrow> first_index xs u < first_index xs v"
  unfolding first_index_def by (induction xs) auto

lemma first_index_map: "first_index (map get_decksUsed ps) v = first_participant ps v"
  by (simp add: first_index_def first_participant_def takeWhile_map comp_def)

lemma first_index_decks_used_list:
  "0 < u \<Longrightarrow> 0 < v \<Longrightarrow>
   first_index (decks_used_list ps) u < first_index (decks_used_list ps) v
     \<longleftrightarrow> first_participant ps u < first_participant ps v"
  unfolding decks_used_list_filter
  by (simp add: first_index_filter [where P = "\<lambda>d. 0 < d"] first_index_map)

lemma Max_decks_pos: "decks_used_list ps \<noteq> [] \<Longrightarrow> 0 < Max (set (decks_used_list ps))"
proof -
  assume ne: "decks_used_list ps \<noteq> []"
  then have "Max (set (decks_used_list ps)) \<in> set (decks_used_list ps)"
    by (intro Max_in) simp_all
  then show ?thesis by (rule decks_used_list_pos)
qed

lemma calculate_fair_benchmark_cases:
  assumes "participants \<noteq> []" and "\<exists>p \<in> set participants. 0 < get_decksUsed p"
  shows "(\<exists>m. first_mode (decks_used_list participants) m \<and>
            calculate_fair_benchmark participants =
              Inr (if m \<in> {4, 8, 12} \<and> m < Max (set (decks_used_list participants)) then m
                   else Max (set (decks_used_list participants)))) \<and>
         ((\<forall>p \<in> set participants. get_decksUsed p = k) \<longrightarrow>
            calculate_fair_benchmark participants = Inr k) \<and>
         (map get_decksUsed participants = [4, 4, 4, 8, 4, 4] \<longrightarrow>
            calculate_fair_benchmark participants = Inr 4)"
proof (intro conjI impI)
  from assms(2) have ne: "decks_used_list participants \<noteq> []"
    by (fastforce simp: decks_used_list_Nil_iff)
  from calculate_fair_benchmark_eq [OF ne]
  show gen: "\<exists>m. first_mode (decks_used_list participants) m \<and>
            calculate_fair_benchmark participants =
              Inr (if m \<in> {4, 8, 12} \<and> m < Max (set (decks_used_list participants)) then m
                   else Max (set (decks_used_list participants)))" .
  then obtain m where fm: "first_mode (decks_used_list participants) m"
    and r: "calculate_fair_benchmark participants =
              Inr (if m \<in> {4, 8, 12} \<and> m < Max (set (decks_used_list participants)) then m
                   else Max (set (decks_used_list participants)))" by blast
  {
    assume same: "\<forall>p \<in> set participants. get_decksUsed p = k"
    with assms(2) have k: "0 < k" by auto
    have "set (decks_used_list participants) \<subseteq> {k}"
      using same by (auto simp: decks_used_list_def)
    moreover have "set (decks_used_list participants) \<noteq> {}" using ne by simp
    ultimately have s: "set (decks_used_list participants) = {k}"
      by (simp add: subset_singleton_iff)
    from fm have "m \<in> set (decks_used_list participants)" by (simp add: first_mode_def)
    with s have "m = k" by simp
    with r s show "calculate_fair_benchmark participants = Inr k" by simp
  }
  {
    assume l: "map get_decksUsed participants = [4, 4, 4, 8, 4, 4]"
    then have d: "decks_used_list participants = [4, 4, 4, 8, 4, 4]"
      by (simp add: decks_used_list_filter)
    show "calculate_fair_benchmark participants = Inr 4"
      using assms(1)
      by (simp add: calculate_fair_benchmark_def d py_max_def most_common_attacks_def
          most_common1_def Counter_def)
  }
qed

text \<open>
  Claim C3. For a non-empty participant list with at least one positive attack count,
  \<open>calculate_fair_benchmark\<close> returns the mode of the positive attack counts when the
  mode is one of 4, 8, 12 and strictly below the maximum positive attack count, and the
  maximum otherwise. If every participant has the same count \<open>k\<close> it returns \<open>k\<close>,
  and for the counts 4, 4, 4, 8, 4, 4 it returns 4. The positive attack counts are
  written out from the participant list, in its order.
\<close>

theorem calculate_fair_benchmark_mode_or_max:
  assumes "participants \<noteq> []" and "\<exists>p \<in> set participants. 0 < get_decksUsed p"
  shows "(\<exists>m. first_mode (filter (\<lambda>d. 0 < d) (map get_decksUsed participants)) m \<and>
            calculate_fair_benchmark participants =
              Inr (if m \<in> {4, 8, 12} \<and>
                      m < Max (set (filter (\<lambda>d. 0 < d) (map get_decksUsed participants)))
                   then m
                   else Max (set (filter (\<lambda>d. 0 < d) (map get_decksUsed participants))))) \<and>
         ((\<forall>p \<in> set participants. get_decksUsed p = k) \<longrightarrow>
            calculate_fair_benchmark participants = Inr k) \<and>
         (map get_decksUsed participants = [4, 4, 4, 8, 4, 4] \<longrightarrow>
            calculate_fair_benchmark participants = Inr 4)"
  using calculate_fair_benchmark_cases [OF assms, of k]
  unfolding decks_used_list_filter .

text \<open>
  Three participants without attacks do not count towards the mode: the counts
  0, 0, 0, 4, 8 give 4.
\<close>

theorem calculate_fair_benchmark_mode_or_max_witness:
  "map attacks [0, 0, 0, 4, 8] \<noteq> [] \<and>
   (\<exists>p \<in> set (map attacks [0, 0, 0, 4, 8]). 0 < get_decksUsed p) \<and>
   filter (\<lambda>d. 0 < d) (map get_decksUsed (map attacks [0, 0, 0, 4, 8])) = [4, 8] \<and>
   calculate_fair_benchmark (map attacks [0, 0, 0, 4, 8]) = Inr 4 \<and>
   map get_decksUsed [attacks 5, attacks 5] = [5, 5] \<and>
   calculate_fair_benchmark [attacks 5, attacks 5] = Inr 5 \<and>
   map get_decksUsed (map attacks [4, 4, 4, 8, 4, 4]) = [4, 4, 4, 8, 4, 4] \<and>
   calculate_fair_benchmark (map attacks [4, 4, 4, 8, 4, 4]) = Inr 4"
proof -
  have a: "[attacks 5, attacks 5] \<noteq> []" by simp
  have b: "\<exists>p \<in> set [attacks 5, attacks 5]. 0 < get_decksUsed p"
    by (simp add: attacks_def get_decksUsed_def)
  have c: "map attacks [4, 4, 4, 8, 4, 4] \<noteq> []" by simp
  have d: "\<exists>p \<in> set (map attacks [4, 4, 4, 8, 4, 4]). 0 < get_decksUsed p"
    by (simp add: attacks_def get_decksUsed_def)
  have e: "map attacks [0, 0, 0, 4, 8] \<noteq> []" by simp
  have f: "\<exists>p \<in> set (map attacks [0, 0, 0, 4, 8]). 0 < get_decksUsed p"
    by (simp add: attacks_def get_decksUsed_def)
  have g: "filter (\<lambda>d. 0 < d) (map get_decksUsed (map attacks [0, 0, 0, 4, 8])) = [4, 8]"
    by (simp add: attacks_def get_decksUsed_def)
  from calculate_fair_benchmark_mode_or_max [OF e f, of 0] obtain m where
    fm: "first_mode [4, 8] m" and
    r: "calculate_fair_benchmark (map attacks [0, 0, 0, 4, 8]) =
          Inr (if m \<in> {4, 8, 12} \<and> m < Max (set [4, 8]) then m else Max (set [4, 8]))"
    unfolding g by blast
  from fm have "m = 4" by (auto simp: first_mode_def first_index_def)
  with r have z: "calculate_fair_benchmark (map attacks [0, 0, 0, 4, 8]) = Inr 4" by simp
  show ?thesis
    using calculate_fair_benchmark_mode_or_max [OF a b, of 5]
      calculate_fair_benchmark_mode_or_max [OF c d, of 0] z g
    by (simp add: attacks_def get_decksUsed_def)
qed

text \<open>
  Claim C4. For every participant list \<open>calculate_fair_benchmark\<close> returns a positive
  integer and raises no error; it returns 16 when the list is empty or every
  participant has zero attacks.
\<close>

theorem calculate_fair_benchmark_positive:
  "\<exists>n. calculate_fair_benchmark participants = Inr n \<and> 0 < n \<and>
     (participants = [] \<or> (\<forall>p \<in> set participants. get_decksUsed p = 0) \<longrightarrow> n = 16)"
proof (cases "decks_used_list participants = []")
  case True
  then have "calculate_fair_benchmark participants = Inr 16"
    by (simp add: calculate_fair_benchmark_def)
  then show ?thesis by simp
next
  case False
  from calculate_fair_benchmark_eq [OF False] obtain m where
    fm: "first_mode (decks_used_list participants) m" and
    r: "calculate_fair_benchmark participants =
       Inr (if m \<in> {4, 8, 12} \<and> m < Max (set (decks_used_list participants)) then m
            else Max (set (decks_used_list participants)))" by blast
  from fm have "m \<in> set (decks_used_list participants)" by (simp add: first_mode_def)
  then have "0 < m" by (rule decks_used_list_pos)
  moreover note Max_decks_pos [OF False]
  moreover have "participants \<noteq> []" using False by (auto simp: decks_used_list_def)
  moreover have "\<not> (\<forall>p \<in> set participants. get_decksUsed p = 0)"
    using False by (fastforce simp: decks_used_list_Nil_iff)
  ultimately show ?thesis using r by auto
qed

text \<open>The all-zero and the empty list.\<close>

theorem calculate_fair_benchmark_positive_witness:
  "map get_decksUsed [attacks 0, attacks 0] = [0, 0] \<and>
   calculate_fair_benchmark [attacks 0, attacks 0] = Inr 16 \<and>
   calculate_fair_benchmark [] = Inr 16"
  using calculate_fair_benchmark_positive [of "[attacks 0, attacks 0]"]
    calculate_fair_benchmark_positive [of "[]"]
  by (auto simp: attacks_def get_decksUsed_def)

lemma count_list_filter:
  "count_list (filter P xs) y = (if P y then count_list xs y else 0)"
  by (induction xs) auto

text \<open>
  Claim C9. The mode that \<open>calculate_fair_benchmark\<close> computes is a positive attack
  count of maximal frequency among the positive attack counts of the participant list,
  and every other positive count of the same frequency is first encountered later in
  the participant list. The mode, and with it the benchmark, is thereby determined by
  the input sequence alone.
\<close>

theorem most_common_attacks_first_on_ties:
  assumes "\<exists>p \<in> set participants. 0 < get_decksUsed p"
  shows "\<exists>m. most_common_attacks (decks_used_list participants) = Inr m \<and>
     0 < m \<and> m \<in> get_decksUsed ` set participants \<and>
     (\<forall>y. 0 < y \<longrightarrow> count_list (map get_decksUsed participants) y
                       \<le> count_list (map get_decksUsed participants) m) \<and>
     (\<forall>y. 0 < y \<and> y \<noteq> m \<and> y \<in> get_decksUsed ` set participants \<and>
          count_list (map get_decksUsed participants) y
            = count_list (map get_decksUsed participants) m
        \<longrightarrow> first_participant participants m < first_participant participants y) \<and>
     first_mode (filter (\<lambda>d. 0 < d) (map get_decksUsed participants)) m \<and>
     (\<forall>m'. first_mode (filter (\<lambda>d. 0 < d) (map get_decksUsed participants)) m'
        \<longrightarrow> m' = m) \<and>
     calculate_fair_benchmark participants =
       Inr (if m \<in> {4, 8, 12} \<and>
               m < Max (set (filter (\<lambda>d. 0 < d) (map get_decksUsed participants)))
            then m
            else Max (set (filter (\<lambda>d. 0 < d) (map get_decksUsed participants))))"
proof -
  let ?all = "map get_decksUsed participants"
  let ?pos = "filter (\<lambda>d. 0 < d) ?all"
  have eq: "decks_used_list participants = ?pos" by (rule decks_used_list_filter)
  from assms have ne: "decks_used_list participants \<noteq> []"
    by (fastforce simp: decks_used_list_Nil_iff)
  from most_common_attacks_mode [OF ne] obtain m where
    m: "most_common_attacks (decks_used_list participants) = Inr m" and
    fm': "first_mode (decks_used_list participants) m" by blast
  from fm' have fm: "first_mode ?pos m" unfolding eq .
  from fm have mem: "m \<in> set ?pos" by (simp add: first_mode_def)
  then have pos: "0 < m" and img: "m \<in> get_decksUsed ` set participants" by auto
  have cnt: "count_list ?pos y = count_list ?all y" if "0 < y" for y
    using that by (simp add: count_list_filter)
  have maxi: "count_list ?all y \<le> count_list ?all m" if y: "0 < y" for y
  proof (cases "y \<in> set ?all")
    case True
    with y have "y \<in> set ?pos" by simp
    with fm have "count_list ?pos y \<le> count_list ?pos m" by (simp add: first_mode_def)
    then show ?thesis by (simp add: cnt [OF y] cnt [OF pos])
  next
    case False
    then have "count_list ?all y = 0" by (rule count_notin)
    then show ?thesis by simp
  qed
  have tie: "first_participant participants m < first_participant participants y"
    if h: "0 < y \<and> y \<noteq> m \<and> y \<in> get_decksUsed ` set participants \<and>
          count_list ?all y = count_list ?all m" for y
  proof -
    from h have y: "0 < y" and "y \<in> set ?pos" by auto
    moreover from h have "count_list ?pos y = count_list ?pos m"
      by (simp add: cnt [OF y] cnt [OF pos])
    ultimately have "first_index ?pos m < first_index ?pos y"
      using fm h by (simp add: first_mode_def)
    then have "first_index (decks_used_list participants) m
        < first_index (decks_used_list participants) y" unfolding eq .
    with pos y show ?thesis by (simp add: first_index_decks_used_list)
  qed
  have u: "\<forall>m'. first_mode ?pos m' \<longrightarrow> m' = m"
    using fm first_mode_unique by blast
  from calculate_fair_benchmark_eq [OF ne] obtain m2 where
    fm2: "first_mode (decks_used_list participants) m2" and
    r2: "calculate_fair_benchmark participants =
       Inr (if m2 \<in> {4, 8, 12} \<and> m2 < Max (set (decks_used_list participants)) then m2
            else Max (set (decks_used_list participants)))" by blast
  from fm2 fm' have "m2 = m" by (rule first_mode_unique)
  with r2 have r: "calculate_fair_benchmark participants =
       Inr (if m \<in> {4, 8, 12} \<and> m < Max (set ?pos) then m else Max (set ?pos))"
    unfolding eq by simp
  from m pos img maxi tie fm u r show ?thesis by blast
qed

text \<open>
  Two participants without attacks come first; of the positive counts, 8 and 4 are tied
  at two occurrences each. The positive count met first is the mode, and the benchmark
  follows it.
\<close>

theorem most_common_attacks_first_on_ties_witness:
  "(\<exists>p \<in> set (map attacks [0, 0, 8, 4, 4, 8, 12]). 0 < get_decksUsed p) \<and>
   most_common_attacks (decks_used_list (map attacks [0, 0, 8, 4, 4, 8, 12])) = Inr 8 \<and>
   calculate_fair_benchmark (map attacks [0, 0, 8, 4, 4, 8, 12]) = Inr 8 \<and>
   calculate_fair_benchmark (map attacks [0, 0, 4, 8, 4, 8, 12]) = Inr 4"
proof -
  have p: "\<exists>p \<in> set (map attacks [0, 0, 8, 4, 4, 8, 12]). 0 < get_decksUsed p"
    by (simp add: attacks_def get_decksUsed_def)
  have g: "filter (\<lambda>d. 0 < d) (map get_decksUsed (map attacks [0, 0, 8, 4, 4, 8, 12]))
      = [8, 4, 4, 8, 12]"
    by (simp add: attacks_def get_decksUsed_def)
  have p': "\<exists>p \<in> set (map attacks [0, 0, 4, 8, 4, 8, 12]). 0 < get_decksUsed p"
    by (simp add: attacks_def get_decksUsed_def)
  have g': "filter (\<lambda>d. 0 < d) (map get_decksUsed (map attacks [0, 0, 4, 8, 4, 8, 12]))
      = [4, 8, 4, 8, 12]"
    by (simp add: attacks_def get_decksUsed_def)
  from most_common_attacks_first_on_ties [OF p] obtain m where
    m: "most_common_attacks (decks_used_list (map attacks [0, 0, 8, 4, 4, 8, 12])) = Inr m" and
    fm: "first_mode [8, 4, 4, 8, 12] m" and
    r: "calculate_fair_benchmark (map attacks [0, 0, 8, 4, 4, 8, 12]) =
       Inr (if m \<in> {4, 8, 12} \<and> m < Max (set [8, 4, 4, 8, 12]) then m
            else Max (set [8, 4, 4, 8, 12]))"
    unfolding g by blast
  from fm have m8: "m = 8" by (auto simp: first_mode_def first_index_def)
  from most_common_attacks_first_on_ties [OF p'] obtain m' where
    fm': "first_mode [4, 8, 4, 8, 12] m'" and
    r': "calculate_fair_benchmark (map attacks [0, 0, 4, 8, 4, 8, 12]) =
       Inr (if m' \<in> {4, 8, 12} \<and> m' < Max (set [4, 8, 4, 8, 12]) then m'
            else Max (set [4, 8, 4, 8, 12]))"
    unfolding g' by blast
  from fm' have m4: "m' = 4" by (auto simp: first_mode_def first_index_def)
  from m r r' p show ?thesis unfolding m8 m4 by simp
qed

section \<open>Properties of the roster aggregator\<close>

lemma current_member_tags_Inr:
  "current_member_tags ms = Inr ts \<Longrightarrow> m_tag ` set ms = Some ` ts"
  by (induction ms arbitrary: ts) (auto split: option.splits sum.splits)

lemma current_member_tags_these:
  "current_member_tags ms = Inr ts \<Longrightarrow> ts = Option.these (m_tag ` set ms)"
  by (drule current_member_tags_Inr) simp

lemma seed_player_stats_dom:
  "seed_player_stats reg ms = Inr reg' \<Longrightarrow> dom reg' = dom reg \<union> m_tag ` set ms"
  by (induction ms arbitrary: reg) (auto split: option.splits)

lemma seed_player_stats_blank:
  "seed_player_stats reg ms = Inr reg' \<Longrightarrow> \<forall>k pl. reg k = Some pl \<longrightarrow> blank pl
    \<Longrightarrow> reg' k = Some pl \<Longrightarrow> blank pl"
proof (induction ms arbitrary: reg)
  case Nil
  then show ?case by simp
next
  case (Cons m ms)
  from Cons.prems(1) obtain t n where t: "m_tag m = Some t" and n: "m_name m = Some n"
    and rest: "seed_player_stats (reg(Some t \<mapsto> new_player n)) ms = Inr reg'"
    by (auto split: option.splits)
  have "\<forall>k pl. (reg(Some t \<mapsto> new_player n)) k = Some pl \<longrightarrow> blank pl"
    using Cons.prems(2) by (auto simp: blank_def new_player_def)
  from Cons.IH [OF rest this Cons.prems(3)] show ?case .
qed

lemma seed_player_stats_None:
  "seed_player_stats reg ms = Inr reg' \<Longrightarrow> None \<notin> dom reg \<Longrightarrow> None \<notin> dom reg'"
  by (induction ms arbitrary: reg) (auto split: option.splits)

lemma seed_player_stats_complete:
  "\<forall>m \<in> set ms. m_tag m \<noteq> None \<and> m_name m \<noteq> None \<Longrightarrow> \<exists>reg'. seed_player_stats reg ms = Inr reg'"
  by (induction ms arbitrary: reg) (auto split: option.splits)

lemma current_member_tags_complete:
  "\<forall>m \<in> set ms. m_tag m \<noteq> None \<Longrightarrow> \<exists>ts. current_member_tags ms = Inr ts"
  by (induction ms) (auto split: option.splits)

lemma overlay_current_war_frame_aux:
  "None \<notin> dom reg \<Longrightarrow>
   \<exists>reg'. overlay_current_war reg ps = Inr reg' \<and>
     (\<forall>k. case reg k of
             None \<Rightarrow> reg' k = None
           | Some pl \<Rightarrow>
               (\<exists>d f. reg' k = Some (pl\<lparr>current_war_decks_used := d, current_war_fame := f\<rparr>)) \<and>
               (k \<notin> p_tag ` set ps \<longrightarrow> reg' k = Some pl))"
proof (induction ps arbitrary: reg)
  case Nil
  show ?case
  proof (intro exI conjI allI)
    show "overlay_current_war reg [] = Inr reg" by simp
    fix k
    show "case reg k of None \<Rightarrow> reg k = None
      | Some pl \<Rightarrow> (\<exists>d f. reg k = Some (pl\<lparr>current_war_decks_used := d, current_war_fame := f\<rparr>)) \<and>
               (k \<notin> p_tag ` set [] \<longrightarrow> reg k = Some pl)"
    proof (cases "reg k")
      case None
      then show ?thesis by simp
    next
      case (Some pl)
      have "\<exists>d f. pl = pl\<lparr>current_war_decks_used := d, current_war_fame := f\<rparr>"
        by (intro exI [of _ "current_war_decks_used pl"] exI [of _ "current_war_fame pl"]) simp
      then show ?thesis using Some by simp
    qed
  qed
next
  case (Cons p ps)
  show ?case
  proof (cases "reg (p_tag p)")
    case None
    from Cons.IH [OF Cons.prems] obtain reg' where
      r: "overlay_current_war reg ps = Inr reg'" and
      f: "\<forall>k. case reg k of None \<Rightarrow> reg' k = None
           | Some pl \<Rightarrow>
               (\<exists>d f. reg' k = Some (pl\<lparr>current_war_decks_used := d, current_war_fame := f\<rparr>)) \<and>
               (k \<notin> p_tag ` set ps \<longrightarrow> reg' k = Some pl)" by blast
    have "overlay_current_war reg (p # ps) = Inr reg'" using None r by simp
    moreover have "case reg k of None \<Rightarrow> reg' k = None
           | Some pl \<Rightarrow>
               (\<exists>d f. reg' k = Some (pl\<lparr>current_war_decks_used := d, current_war_fame := f\<rparr>)) \<and>
               (k \<notin> p_tag ` set (p # ps) \<longrightarrow> reg' k = Some pl)" for k
      using f [rule_format, of k] by (auto split: option.splits)
    ultimately show ?thesis by blast
  next
    case (Some pl0)
    with Cons.prems obtain t where t: "p_tag p = Some t" by (cases "p_tag p") auto
    define reg1 where "reg1 = reg(Some t \<mapsto> pl0\<lparr>current_war_decks_used := get_decksUsed p,
                                      current_war_fame := get_fame p\<rparr>)"
    have "None \<notin> dom reg1" using Cons.prems by (auto simp: reg1_def)
    from Cons.IH [OF this] obtain reg' where
      r: "overlay_current_war reg1 ps = Inr reg'" and
      f: "\<forall>k. case reg1 k of None \<Rightarrow> reg' k = None
           | Some pl \<Rightarrow>
               (\<exists>d f. reg' k = Some (pl\<lparr>current_war_decks_used := d, current_war_fame := f\<rparr>)) \<and>
               (k \<notin> p_tag ` set ps \<longrightarrow> reg' k = Some pl)" by blast
    have "overlay_current_war reg (p # ps) = Inr reg'"
      using Some t r by (simp add: reg1_def)
    moreover have "case reg k of None \<Rightarrow> reg' k = None
           | Some pl \<Rightarrow>
               (\<exists>d f. reg' k = Some (pl\<lparr>current_war_decks_used := d, current_war_fame := f\<rparr>)) \<and>
               (k \<notin> p_tag ` set (p # ps) \<longrightarrow> reg' k = Some pl)" for k
    proof (cases "k = Some t")
      case True
      from f [rule_format, of k] True obtain d f where
        "reg' k = Some (pl0\<lparr>current_war_decks_used := get_decksUsed p,
                           current_war_fame := get_fame p\<rparr>
                         \<lparr>current_war_decks_used := d, current_war_fame := f\<rparr>)"
        by (auto simp: reg1_def)
      then have "reg' k = Some (pl0\<lparr>current_war_decks_used := d, current_war_fame := f\<rparr>)"
        by simp
      then show ?thesis using True Some t by auto
    next
      case False
      then have "reg1 k = reg k" by (simp add: reg1_def)
      with f [rule_format, of k] False t show ?thesis
        by (auto split: option.splits)
    qed
    ultimately show ?thesis by blast
  qed
qed

subsection \<open>War identifiers are pairwise distinct\<close>

lemma digit_char_inj: "a < 10 \<Longrightarrow> b < 10 \<Longrightarrow> digit_char a = digit_char b \<Longrightarrow> a = b"
proof -
  assume a: "a < 10" and b: "b < 10" and e: "digit_char a = digit_char b"
  have d: "distinct ''0123456789''" by simp
  have l: "length ''0123456789'' = 10" by simp
  from e have "''0123456789'' ! a = ''0123456789'' ! b" by (simp only: digit_char_def)
  with d a b l show "a = b" by (simp only: nth_eq_iff_index_eq)
qed

lemma digit_char_in: "d < 10 \<Longrightarrow> digit_char d \<in> set ''0123456789''"
  unfolding digit_char_def by (rule nth_mem) simp

lemma digit_char_not_space: "d < 10 \<Longrightarrow> digit_char d \<noteq> CHR '' ''"
  using digit_char_in [of d] by auto

lemma str_nat_not_Nil: "str_nat n \<noteq> []"
  by (subst str_nat.simps) simp

lemma str_nat_no_space: "CHR '' '' \<notin> set (str_nat n)"
proof (induction n rule: str_nat.induct)
  case (1 n)
  show ?case
  proof (cases "n < 10")
    case True
    then show ?thesis using digit_char_not_space [of n] by (subst str_nat.simps) auto
  next
    case False
    have "n mod 10 < 10" by simp
    then have "digit_char (n mod 10) \<noteq> CHR '' ''" by (rule digit_char_not_space)
    with False 1 show ?thesis by (subst str_nat.simps) auto
  qed
qed

lemma str_nat_inj: "str_nat a = str_nat b \<Longrightarrow> a = b"
proof (induction a arbitrary: b rule: str_nat.induct)
  case (1 a)
  show ?case
  proof (cases "a < 10")
    case a: True
    show ?thesis
    proof (cases "b < 10")
      case True
      with a "1.prems" have "digit_char a = digit_char b"
        by (simp add: str_nat.simps [of a] str_nat.simps [of b])
      with a True show ?thesis by (rule digit_char_inj)
    next
      case False
      with a "1.prems" have "[digit_char a] = str_nat (b div 10) @ [digit_char (b mod 10)]"
        by (simp add: str_nat.simps [of a] str_nat.simps [of b])
      then have "str_nat (b div 10) = []" by simp
      then show ?thesis using str_nat_not_Nil by blast
    qed
  next
    case a: False
    show ?thesis
    proof (cases "b < 10")
      case True
      with a "1.prems" have "str_nat (a div 10) @ [digit_char (a mod 10)] = [digit_char b]"
        by (simp add: str_nat.simps [of a] str_nat.simps [of b])
      then have "str_nat (a div 10) = []" by simp
      then show ?thesis using str_nat_not_Nil by blast
    next
      case False
      with a "1.prems" have "str_nat (a div 10) @ [digit_char (a mod 10)]
          = str_nat (b div 10) @ [digit_char (b mod 10)]"
        by (simp add: str_nat.simps [of a] str_nat.simps [of b])
      then have h: "str_nat (a div 10) = str_nat (b div 10)"
        and d: "digit_char (a mod 10) = digit_char (b mod 10)" by simp_all
      from "1.IH" [OF a h] have "a div 10 = b div 10" .
      moreover have "a mod 10 = b mod 10"
        by (rule digit_char_inj [OF _ _ d]) simp_all
      ultimately show ?thesis by (metis div_mult_mod_eq)
    qed
  qed
qed

lemma append_sep_eq:
  assumes "xs @ c # r = ys @ c # r'" and "c \<notin> set xs" and "c \<notin> set ys"
  shows "xs = ys"
proof -
  have "takeWhile (\<lambda>x. x \<noteq> c) (xs @ c # r) = xs" using assms(2)
    by (auto simp: takeWhile_tail)
  moreover have "takeWhile (\<lambda>x. x \<noteq> c) (ys @ c # r') = ys" using assms(3)
    by (auto simp: takeWhile_tail)
  ultimately show ?thesis using assms(1) by simp
qed

lemma war_id_inj: "war_id i w = war_id j w' \<Longrightarrow> i = j"
proof -
  assume "war_id i w = war_id j w'"
  then have "str_nat (i + 1) @ CHR '' '' # (CHR ''('' # date_part w @ '')'')
      = str_nat (j + 1) @ CHR '' '' # (CHR ''('' # date_part w' @ '')'')"
    by (simp add: war_id_def)
  then have "str_nat (i + 1) = str_nat (j + 1)"
    by (rule append_sep_eq) (rule str_nat_no_space)+
  then have "i + 1 = j + 1" by (rule str_nat_inj)
  then show ?thesis by simp
qed

lemma length_war_ids [simp]: "length (war_ids ws) = length ws"
  by (simp add: war_ids_def)

lemma war_ids_nth: "i < length ws \<Longrightarrow> war_ids ws ! i = war_id i (ws ! i)"
  by (simp add: war_ids_def nth_enumerate_eq)

lemma distinct_war_ids: "distinct (war_ids ws)"
proof (rule iffD2 [OF distinct_conv_nth], intro allI impI)
  fix i j
  assume i: "i < length (war_ids ws)" and j: "j < length (war_ids ws)" and ne: "i \<noteq> j"
  show "war_ids ws ! i \<noteq> war_ids ws ! j"
  proof
    assume "war_ids ws ! i = war_ids ws ! j"
    with i j have "war_id i (ws ! i) = war_id j (ws ! j)" by (simp add: war_ids_nth)
    then have "i = j" by (rule war_id_inj)
    with ne show False by simp
  qed
qed

subsection \<open>The war loop, one key at a time\<close>

lemma record_participants_key:
  "record_participants wid reg ps k =
     map_option (\<lambda>pl. foldl (\<lambda>pl p. record_participant wid p pl) pl (tagged k ps)) (reg k)"
proof (induction ps arbitrary: reg)
  case Nil
  show ?case by (simp add: tagged_def option.map_ident)
next
  case (Cons p ps)
  show ?case
  proof (cases "reg (p_tag p)")
    case None
    then show ?thesis by (auto simp: Cons.IH tagged_def)
  next
    case (Some pl)
    then show ?thesis by (auto simp: Cons.IH tagged_def)
  qed
qed

lemma foldl_record_history:
  "war_history (foldl (\<lambda>pl p. record_participant wid p pl) pl qs) =
     (if qs = [] then war_history pl
      else (war_history pl)(wid \<mapsto> \<lparr>fame = get_fame (last qs), decksUsed = get_decksUsed (last qs)\<rparr>))"
  by (induction qs arbitrary: pl) (auto simp: record_participant_def)

lemma foldl_record_fame:
  "total_war_fame (foldl (\<lambda>pl p. record_participant wid p pl) pl qs) =
     total_war_fame pl + sum_list (map get_fame qs)"
  by (induction qs arbitrary: pl) (auto simp: record_participant_def)

lemma foldl_record_decks:
  "total_decks_used (foldl (\<lambda>pl p. record_participant wid p pl) pl qs) =
     total_decks_used pl + sum_list (map get_decksUsed qs)"
  by (induction qs arbitrary: pl) (auto simp: record_participant_def)

lemma foldl_record_current:
  "current_war_fame (foldl (\<lambda>pl p. record_participant wid p pl) pl qs) = current_war_fame pl \<and>
   current_war_decks_used (foldl (\<lambda>pl p. record_participant wid p pl) pl qs)
     = current_war_decks_used pl"
  by (induction qs arbitrary: pl) (auto simp: record_participant_def)

lemma calculate_fair_benchmark_total:
  "\<exists>n. calculate_fair_benchmark ps = Inr n \<and> 0 < n"
proof (cases "decks_used_list ps = []")
  case True
  then have "calculate_fair_benchmark ps = Inr 16"
    by (simp add: calculate_fair_benchmark_def)
  then show ?thesis by simp
next
  case False
  from calculate_fair_benchmark_eq [OF False] obtain m where
    fm: "first_mode (decks_used_list ps) m" and
    r: "calculate_fair_benchmark ps =
       Inr (if m \<in> {4, 8, 12} \<and> m < Max (set (decks_used_list ps)) then m
            else Max (set (decks_used_list ps)))" by blast
  from fm have "m \<in> set (decks_used_list ps)" by (simp add: first_mode_def)
  then have "0 < m" by (rule decks_used_list_pos)
  with Max_decks_pos [OF False] r show ?thesis by auto
qed

lemma war_benchmark_total: "\<exists>n. war_benchmark clan_tag ps = Inr n \<and> 0 < n"
  using calculate_fair_benchmark_total [of ps] by (auto simp: war_benchmark_def)

lemma zero_then_record_key:
  "record_participants wid (zero_history wid reg) ps k =
     map_option (\<lambda>pl. player_after_war k pl (wid, ps)) (reg k)"
  by (simp add: record_participants_key zero_history_def player_after_war_def
      option.map_comp comp_def)

lemma process_war_key:
  assumes "i < length ids"
  shows "\<exists>reg' bms'. process_war clan_tag ids (reg, bms) (i, w) = Inr (reg', bms') \<and>
     (\<forall>k. reg' k = map_option
        (\<lambda>pl. player_after_war k pl (ids ! i, war_participants clan_tag w)) (reg k))"
proof -
  from war_benchmark_total [of clan_tag "war_participants clan_tag w"] obtain b where
    b: "war_benchmark clan_tag (war_participants clan_tag w) = Inr b" by blast
  have "process_war clan_tag ids (reg, bms) (i, w) =
      Inr (record_participants (ids ! i) (zero_history (ids ! i) reg)
             (war_participants clan_tag w), bms(ids ! i \<mapsto> b))"
    using assms b by (simp add: process_war_def py_nth_def)
  then show ?thesis by (simp add: zero_then_record_key)
qed

lemma process_wars_key:
  assumes "\<forall>iw \<in> set iws. fst iw < length ids"
  shows "\<exists>reg' bms'. process_wars clan_tag ids (reg, bms) iws = Inr (reg', bms') \<and>
     (\<forall>k. reg' k = map_option
        (\<lambda>pl. foldl (player_after_war k) pl
           (map (\<lambda>(i, w). (ids ! i, war_participants clan_tag w)) iws)) (reg k))"
  using assms
proof (induction iws arbitrary: reg bms)
  case Nil
  show ?case by (simp add: option.map_ident)
next
  case (Cons iw iws)
  obtain i w where iw: "iw = (i, w)" by (cases iw)
  with Cons.prems have i: "i < length ids" by simp
  from process_war_key [OF i, of clan_tag reg bms w] obtain reg1 bms1 where
    s: "process_war clan_tag ids (reg, bms) (i, w) = Inr (reg1, bms1)" and
    k1: "\<forall>k. reg1 k = map_option
        (\<lambda>pl. player_after_war k pl (ids ! i, war_participants clan_tag w)) (reg k)" by blast
  from Cons.prems have "\<forall>iw \<in> set iws. fst iw < length ids" by simp
  from Cons.IH [OF this, of reg1 bms1] obtain reg' bms' where
    r: "process_wars clan_tag ids (reg1, bms1) iws = Inr (reg', bms')" and
    k2: "\<forall>k. reg' k = map_option
        (\<lambda>pl. foldl (player_after_war k) pl
           (map (\<lambda>(i, w). (ids ! i, war_participants clan_tag w)) iws)) (reg1 k)" by blast
  have "process_wars clan_tag ids (reg, bms) (iw # iws) = Inr (reg', bms')"
    using s r iw by simp
  moreover have "reg' k = map_option
        (\<lambda>pl. foldl (player_after_war k) pl
           (map (\<lambda>(i, w). (ids ! i, war_participants clan_tag w)) (iw # iws))) (reg k)" for k
    using k1 k2 iw by (simp add: option.map_comp comp_def)
  ultimately show ?case by blast
qed

lemma enumerate_fst_less: "iw \<in> set (take n (enumerate 0 ws)) \<Longrightarrow> fst iw < length ws"
proof -
  assume "iw \<in> set (take n (enumerate 0 ws))"
  then have "iw \<in> set (enumerate 0 ws)" by (rule in_set_takeD)
  then show ?thesis by (auto simp: in_set_enumerate_eq)
qed

lemma after_wars_key:
  assumes "initial_registry clan_tag cd cwd wld = Inr reg0"
  shows "\<exists>reg bms. after_wars n clan_tag cd cwd wld = Inr (reg, bms) \<and>
     (\<forall>k. reg k = map_option
        (\<lambda>pl. foldl (player_after_war k) pl (take n (logged_wars clan_tag (get_items wld))))
        (reg0 k))"
proof -
  have "\<forall>iw \<in> set (take n (enumerate 0 (get_items wld))).
      fst iw < length (war_ids (get_items wld))"
    by (simp add: enumerate_fst_less)
  from process_wars_key [OF this, of clan_tag reg0 Map.empty]
  show ?thesis using assms by (simp add: after_wars_def logged_wars_def take_map)
qed

lemma map_fst_logged_wars: "map fst (logged_wars clan_tag ws) = war_ids ws"
  by (rule nth_equalityI) (simp_all add: logged_wars_def nth_enumerate_eq)

lemma map_snd_logged_wars: "map snd (logged_wars clan_tag ws) = map (war_participants clan_tag) ws"
  by (rule nth_equalityI) (simp_all add: logged_wars_def nth_enumerate_eq)

lemma length_logged_wars [simp]: "length (logged_wars clan_tag ws) = length ws"
  by (simp add: logged_wars_def)

lemma foldl_record_name:
  "name (foldl (\<lambda>pl p. record_participant wid p pl) pl qs) = foldl name_update (name pl) qs"
  by (induction qs arbitrary: pl) (auto simp: record_participant_def name_update_def)

lemma player_after_war_history:
  "war_history (player_after_war k pl (wid, ps)) = (war_history pl)(wid \<mapsto> entry_of k ps)"
  by (simp add: player_after_war_def foldl_record_history entry_of_def)

lemma player_after_war_fame:
  "total_war_fame (player_after_war k pl (wid, ps)) =
     total_war_fame pl + sum_list (map get_fame (tagged k ps))"
  by (simp add: player_after_war_def foldl_record_fame)

lemma player_after_war_decks:
  "total_decks_used (player_after_war k pl (wid, ps)) =
     total_decks_used pl + sum_list (map get_decksUsed (tagged k ps))"
  by (simp add: player_after_war_def foldl_record_decks)

lemma player_after_war_current:
  "current_war_fame (player_after_war k pl wps) = current_war_fame pl \<and>
   current_war_decks_used (player_after_war k pl wps) = current_war_decks_used pl"
  by (simp add: player_after_war_def foldl_record_current)

lemma player_after_war_name:
  "name (player_after_war k pl (wid, ps)) = foldl name_update (name pl) (tagged k ps)"
  by (simp add: player_after_war_def foldl_record_name)

lemma after_wars_history_dom:
  "dom (war_history (foldl (player_after_war k) pl wps)) =
     dom (war_history pl) \<union> set (map fst wps)"
proof (induction wps rule: rev_induct)
  case Nil
  show ?case by simp
next
  case (snoc x wps)
  obtain wid ps where x: "x = (wid, ps)" by (cases x)
  have "war_history (foldl (player_after_war k) pl (wps @ [x])) =
      (war_history (foldl (player_after_war k) pl wps))(wid \<mapsto> entry_of k ps)"
    by (simp add: x player_after_war_history)
  then have "dom (war_history (foldl (player_after_war k) pl (wps @ [x]))) =
      insert wid (dom (war_history (foldl (player_after_war k) pl wps)))"
    by (simp only: dom_fun_upd) simp
  then show ?case unfolding snoc.IH by (simp add: x)
qed

lemma after_wars_history_nth:
  "distinct (map fst wps) \<Longrightarrow> i < length wps \<Longrightarrow>
     war_history (foldl (player_after_war k) pl wps) (fst (wps ! i))
       = Some (entry_of k (snd (wps ! i)))"
proof (induction wps rule: rev_induct)
  case Nil
  then show ?case by simp
next
  case (snoc x wps)
  obtain wid ps where x: "x = (wid, ps)" by (cases x)
  from snoc.prems(1) have d: "distinct (map fst wps)" and n: "wid \<notin> fst ` set wps"
    by (simp_all add: x)
  show ?case
  proof (cases "i < length wps")
    case True
    then have "wps ! i \<in> set wps" by simp
    with n have "fst (wps ! i) \<noteq> wid" by auto
    then show ?thesis
      using snoc.IH [OF d True] True by (simp add: x player_after_war_history nth_append)
  next
    case False
    with snoc.prems(2) have "i = length wps" by simp
    then show ?thesis by (simp add: x player_after_war_history)
  qed
qed

lemma after_wars_fame:
  "total_war_fame (foldl (player_after_war k) pl wps) =
     total_war_fame pl + sum_list (map (\<lambda>wp. sum_list (map get_fame (tagged k (snd wp)))) wps)"
proof (induction wps rule: rev_induct)
  case Nil
  show ?case by simp
next
  case (snoc x wps)
  obtain wid ps where x: "x = (wid, ps)" by (cases x)
  show ?case using snoc.IH by (simp add: x player_after_war_fame)
qed

lemma after_wars_decks:
  "total_decks_used (foldl (player_after_war k) pl wps) =
     total_decks_used pl
       + sum_list (map (\<lambda>wp. sum_list (map get_decksUsed (tagged k (snd wp)))) wps)"
proof (induction wps rule: rev_induct)
  case Nil
  show ?case by simp
next
  case (snoc x wps)
  obtain wid ps where x: "x = (wid, ps)" by (cases x)
  show ?case using snoc.IH by (simp add: x player_after_war_decks)
qed

lemma after_wars_current:
  "current_war_fame (foldl (player_after_war k) pl wps) = current_war_fame pl \<and>
   current_war_decks_used (foldl (player_after_war k) pl wps) = current_war_decks_used pl"
  by (induction wps rule: rev_induct) (simp_all add: player_after_war_current)

lemma tagged_append: "tagged k (xs @ ys) = tagged k xs @ tagged k ys"
  by (simp add: tagged_def)

lemma after_wars_name:
  "name (foldl (player_after_war k) pl wps) =
     foldl name_update (name pl) (tagged k (concat (map snd wps)))"
proof (induction wps rule: rev_induct)
  case Nil
  show ?case by (simp add: tagged_def)
next
  case (snoc x wps)
  obtain wid ps where x: "x = (wid, ps)" by (cases x)
  show ?case using snoc.IH by (simp add: x player_after_war_name tagged_append)
qed

lemma overlay_current_war_dom:
  assumes "None \<notin> dom reg" and "overlay_current_war reg ps = Inr reg'"
  shows "dom reg' = dom reg"
proof -
  from overlay_current_war_frame_aux [OF assms(1), of ps] assms(2)
  have f: "\<forall>k. case reg k of None \<Rightarrow> reg' k = None
           | Some pl \<Rightarrow>
               (\<exists>d f. reg' k = Some (pl\<lparr>current_war_decks_used := d, current_war_fame := f\<rparr>)) \<and>
               (k \<notin> p_tag ` set ps \<longrightarrow> reg' k = Some pl)" by auto
  show ?thesis
  proof (rule set_eqI)
    fix k
    from f [rule_format, of k] show "k \<in> dom reg' \<longleftrightarrow> k \<in> dom reg"
      by (cases "reg k") auto
  qed
qed

lemma overlay_current_war_blank:
  assumes "None \<notin> dom reg" and "overlay_current_war reg ps = Inr reg'"
    and "\<forall>k pl. reg k = Some pl \<longrightarrow> blank pl" and "reg' k = Some pl"
  shows "blank pl"
proof -
  from overlay_current_war_frame_aux [OF assms(1), of ps] assms(2)
  have f: "\<forall>k. case reg k of None \<Rightarrow> reg' k = None
           | Some pl \<Rightarrow>
               (\<exists>d f. reg' k = Some (pl\<lparr>current_war_decks_used := d, current_war_fame := f\<rparr>)) \<and>
               (k \<notin> p_tag ` set ps \<longrightarrow> reg' k = Some pl)" by auto
  from f [rule_format, of k] assms(4) obtain pl0 d f where
    "reg k = Some pl0" and "pl = pl0\<lparr>current_war_decks_used := d, current_war_fame := f\<rparr>"
    by (cases "reg k") auto
  with assms(3) show ?thesis by (auto simp: blank_def)
qed

lemma dom_add_former_members: "dom (add_former_members tags reg) = dom reg \<union> tags"
  by (auto simp: add_former_members_def dom_def)

lemma add_former_members_old: "reg k = Some pl \<Longrightarrow> add_former_members tags reg k = Some pl"
  by (simp add: add_former_members_def)

lemma add_former_members_new:
  "reg k = None \<Longrightarrow> add_former_members tags reg k = Some pl \<Longrightarrow> pl = new_player former_member"
  by (simp add: add_former_members_def split: if_splits)

lemma blank_new_player: "blank (new_player n)"
  by (simp add: blank_def new_player_def)

lemma initial_registryD:
  assumes "initial_registry clan_tag cd cwd wld = Inr reg0"
  obtains ts seeded reg where
    "current_member_tags (get_memberList cd) = Inr ts"
    "seed_player_stats Map.empty (get_memberList cd) = Inr seeded"
    "overlay_current_war seeded (clan_participants (cw_clan cwd)) = Inr reg"
    "reg0 = add_former_members (all_participants clan_tag reg (get_items wld)) reg"
  using assms unfolding initial_registry_def
  by (auto split: sum.splits)

lemma initial_registry_dom:
  assumes "initial_registry clan_tag cd cwd wld = Inr reg0"
  shows "dom reg0 = Some ` roster_tags cd \<union> p_tag ` set (log_participants clan_tag wld)"
proof -
  from assms obtain ts seeded reg where
    ts: "current_member_tags (get_memberList cd) = Inr ts" and
    se: "seed_player_stats Map.empty (get_memberList cd) = Inr seeded" and
    ov: "overlay_current_war seeded (clan_participants (cw_clan cwd)) = Inr reg" and
    r0: "reg0 = add_former_members (all_participants clan_tag reg (get_items wld)) reg"
    by (rule initial_registryD)
  from ts have "m_tag ` set (get_memberList cd) = Some ` roster_tags cd"
    using current_member_tags_Inr current_member_tags_these roster_tags_def by metis
  with seed_player_stats_dom [OF se] have ds: "dom seeded = Some ` roster_tags cd" by simp
  then have "None \<notin> dom seeded" by auto
  from overlay_current_war_dom [OF this ov] ds have "dom reg = Some ` roster_tags cd" by simp
  then show ?thesis
    unfolding r0 by (auto simp: dom_add_former_members all_participants_def log_participants_def)
qed

lemma initial_registry_blank:
  assumes "initial_registry clan_tag cd cwd wld = Inr reg0" and "reg0 k = Some pl"
  shows "blank pl"
proof -
  from assms(1) obtain ts seeded reg where
    se: "seed_player_stats Map.empty (get_memberList cd) = Inr seeded" and
    ov: "overlay_current_war seeded (clan_participants (cw_clan cwd)) = Inr reg" and
    r0: "reg0 = add_former_members (all_participants clan_tag reg (get_items wld)) reg"
    by (rule initial_registryD)
  have b: "\<forall>k pl. seeded k = Some pl \<longrightarrow> blank pl"
    using seed_player_stats_blank [OF se] by simp
  have "None \<notin> dom seeded" using seed_player_stats_None [OF se] by simp
  from overlay_current_war_blank [OF this ov b]
  have br: "\<And>k pl. reg k = Some pl \<Longrightarrow> blank pl" by blast
  show ?thesis
  proof (cases "reg k")
    case None
    with assms(2) r0 have "pl = new_player former_member"
      by (auto dest: add_former_members_new)
    then show ?thesis by (simp add: blank_new_player)
  next
    case (Some pl')
    with assms(2) r0 have "pl = pl'" by (simp add: add_former_members_old)
    with Some br show ?thesis by blast
  qed
qed

lemma initial_registry_former:
  assumes "initial_registry clan_tag cd cwd wld = Inr reg0" and "reg0 k = Some pl"
    and "k \<notin> Some ` roster_tags cd"
  shows "pl = new_player former_member"
proof -
  from assms(1) obtain ts seeded reg where
    ts: "current_member_tags (get_memberList cd) = Inr ts" and
    se: "seed_player_stats Map.empty (get_memberList cd) = Inr seeded" and
    ov: "overlay_current_war seeded (clan_participants (cw_clan cwd)) = Inr reg" and
    r0: "reg0 = add_former_members (all_participants clan_tag reg (get_items wld)) reg"
    by (rule initial_registryD)
  from ts have "m_tag ` set (get_memberList cd) = Some ` roster_tags cd"
    using current_member_tags_Inr current_member_tags_these roster_tags_def by metis
  with seed_player_stats_dom [OF se] have ds: "dom seeded = Some ` roster_tags cd" by simp
  then have "None \<notin> dom seeded" by auto
  from overlay_current_war_dom [OF this ov] ds have "dom reg = Some ` roster_tags cd" by simp
  with assms(3) have "reg k = None" by auto
  with assms(2) r0 show ?thesis by (auto dest: add_former_members_new)
qed

lemma initial_registry_complete:
  assumes "\<forall>m \<in> set (get_memberList cd). m_tag m \<noteq> None \<and> m_name m \<noteq> None"
  shows "\<exists>reg0. initial_registry clan_tag cd cwd wld = Inr reg0"
proof -
  from assms current_member_tags_complete [of "get_memberList cd"] obtain ts where
    ts: "current_member_tags (get_memberList cd) = Inr ts" by auto
  from assms seed_player_stats_complete [of "get_memberList cd" Map.empty] obtain seeded where
    se: "seed_player_stats Map.empty (get_memberList cd) = Inr seeded" by auto
  have "None \<notin> dom seeded" using seed_player_stats_None [OF se] by simp
  from overlay_current_war_frame_aux [OF this, of "clan_participants (cw_clan cwd)"]
  obtain reg where "overlay_current_war seeded (clan_participants (cw_clan cwd)) = Inr reg"
    by blast
  with ts se show ?thesis by (simp add: initial_registry_def)
qed

lemma generate_html_for_clan_ReportD:
  assumes "generate_html_for_clan clan_tag (Some cd) (Some cwd) (Some wld) = Inr (Report r)"
  obtains reg0 where
    "initial_registry clan_tag cd cwd wld = Inr reg0"
    "after_wars (length (get_items wld)) clan_tag cd cwd wld
       = Inr (player_stats r, war_benchmarks r)"
    "member_tags r = roster_tags cd"
    "report_war_ids r = war_ids (get_items wld)"
proof -
  from assms obtain ts reg bms where
    ts: "current_member_tags (get_memberList cd) = Inr ts" and
    aw: "after_wars (length (get_items wld)) clan_tag cd cwd wld = Inr (reg, bms)" and
    r: "r = \<lparr>member_tags = ts, player_stats = reg,
             report_war_ids = war_ids (get_items wld), war_benchmarks = bms\<rparr>"
    unfolding generate_html_for_clan_def
    by (auto split: if_splits sum.splits prod.splits)
  from aw obtain reg0 where i: "initial_registry clan_tag cd cwd wld = Inr reg0"
    unfolding after_wars_def by (auto split: sum.splits)
  show ?thesis
  proof (rule that [OF i])
    show "after_wars (length (get_items wld)) clan_tag cd cwd wld
       = Inr (player_stats r, war_benchmarks r)" using aw r by simp
    show "member_tags r = roster_tags cd"
      using r current_member_tags_these [OF ts] by (simp add: roster_tags_def)
    show "report_war_ids r = war_ids (get_items wld)" using r by simp
  qed
qed

lemma report_player:
  assumes "generate_html_for_clan clan_tag (Some cd) (Some cwd) (Some wld) = Inr (Report r)"
  shows "\<exists>reg0. initial_registry clan_tag cd cwd wld = Inr reg0 \<and>
    (\<forall>k. player_stats r k = map_option
        (\<lambda>pl. foldl (player_after_war k) pl (logged_wars clan_tag (get_items wld))) (reg0 k))"
proof -
  from assms obtain reg0 where
    i: "initial_registry clan_tag cd cwd wld = Inr reg0" and
    aw: "after_wars (length (get_items wld)) clan_tag cd cwd wld
       = Inr (player_stats r, war_benchmarks r)"
    by (rule generate_html_for_clan_ReportD)
  from after_wars_key [OF i, of "length (get_items wld)"] aw
  have "\<forall>k. player_stats r k = map_option
        (\<lambda>pl. foldl (player_after_war k) pl (logged_wars clan_tag (get_items wld))) (reg0 k)"
    by auto
  with i show ?thesis by blast
qed

lemma generate_html_for_clan_complete:
  assumes "memberList cd \<noteq> None \<or> clan_other_keys cd \<noteq> []"
    and "cw_clan cwd \<noteq> None \<or> cw_other_keys cwd \<noteq> []"
    and "items wld \<noteq> None \<or> log_other_keys wld \<noteq> []"
    and "list_all (\<lambda>m. m_tag m \<noteq> None \<and> m_name m \<noteq> None) (get_memberList cd)"
  shows "\<exists>r. generate_html_for_clan clan_tag (Some cd) (Some cwd) (Some wld) = Inr (Report r)"
proof -
  from assms(4) have m: "\<forall>m \<in> set (get_memberList cd). m_tag m \<noteq> None \<and> m_name m \<noteq> None"
    by (simp add: list_all_iff)
  then obtain ts where ts: "current_member_tags (get_memberList cd) = Inr ts"
    using current_member_tags_complete [of "get_memberList cd"] by auto
  from initial_registry_complete [OF m] obtain reg0 where
    "initial_registry clan_tag cd cwd wld = Inr reg0" by blast
  from after_wars_key [OF this, of "length (get_items wld)"] obtain reg bms where
    "after_wars (length (get_items wld)) clan_tag cd cwd wld = Inr (reg, bms)" by blast
  with ts assms(1-3) show ?thesis
    by (simp add: generate_html_for_clan_def clan_data_truthy_def current_war_data_truthy_def
        war_log_data_truthy_def)
qed

lemma report_registry_Report:
  "x = Inr (Report r) \<Longrightarrow> report_registry x = player_stats r"
  by (simp add: report_registry_def)

lemma report_keys:
  assumes "generate_html_for_clan clan_tag (Some cd) (Some cwd) (Some wld) = Inr (Report r)"
  shows "dom (player_stats r) =
           Some ` roster_tags cd \<union> p_tag ` set (log_participants clan_tag wld)"
proof -
  from report_player [OF assms] obtain reg0 where
    i: "initial_registry clan_tag cd cwd wld = Inr reg0" and
    k: "\<forall>k. player_stats r k = map_option
        (\<lambda>pl. foldl (player_after_war k) pl (logged_wars clan_tag (get_items wld))) (reg0 k)"
    by blast
  have "dom (player_stats r) = dom reg0" by (auto simp: k dom_def)
  with initial_registry_dom [OF i] show ?thesis by simp
qed

text \<open>
  Claim C1, as amended. When the report is aggregated, the keys of the player registry
  are the roster's tags together with the value of \<open>p.get('tag')\<close> for every
  participant of every standing of the clan under report in the war log: the
  participant's tag, or the key \<open>None\<close> for a participant without a tag field. The
  string keys are exactly the union of the roster's tags and the logged participants'
  tags, and the key \<open>None\<close> is present exactly when a logged participant has no tag.
\<close>

theorem registry_keys:
  assumes "generate_html_for_clan clan_tag (Some cd) (Some cwd) (Some wld) = Inr (Report r)"
  shows "dom (player_stats r) =
           Some ` roster_tags cd \<union> p_tag ` set (log_participants clan_tag wld) \<and>
         Option.these (dom (player_stats r)) =
           roster_tags cd \<union> Option.these (p_tag ` set (log_participants clan_tag wld)) \<and>
         (None \<in> dom (player_stats r) \<longleftrightarrow>
            (\<exists>p \<in> set (log_participants clan_tag wld). p_tag p = None))"
proof -
  have d: "dom (player_stats r) =
      Some ` roster_tags cd \<union> p_tag ` set (log_participants clan_tag wld)"
    using assms by (rule report_keys)
  have t: "Option.these (dom (player_stats r)) =
           roster_tags cd \<union> Option.these (p_tag ` set (log_participants clan_tag wld))"
    unfolding d by (auto simp: in_these_eq)
  have n: "None \<in> dom (player_stats r) \<longleftrightarrow>
            (\<exists>p \<in> set (log_participants clan_tag wld). p_tag p = None)"
    unfolding d by (force simp: image_iff)
  from d t n show ?thesis by blast
qed

lemma ex_complete:
  "\<exists>r. generate_html_for_clan ''#C'' (Some ex_clan) (Some ex_current_war) (Some wld)
     = Inr (Report r)" if "items wld \<noteq> None"
  using that
  by (intro generate_html_for_clan_complete)
    (simp_all add: ex_clan_def ex_current_war_def get_memberList_def)

lemma ex_log_participants:
  "log_participants ''#C'' ex_war_log
     = [mk_participant ''#A'' ''Ann'' 900 8, mk_participant ''#B'' ''Bob'' 500 4]"
  by (simp add: log_participants_def ex_war_log_def get_items_def standing_participants_def
      mk_war_def get_standings_def is_clan_standing_def clan_tag_of_def clan_participants_def)

text \<open>One roster member and one departed participant give two keys.\<close>

theorem registry_keys_witness:
  "dom (report_registry
     (generate_html_for_clan ''#C'' (Some ex_clan) (Some ex_current_war) (Some ex_war_log)))
   = {Some ''#A'', Some ''#B''}"
proof -
  from ex_complete [of ex_war_log] obtain r where
    r: "generate_html_for_clan ''#C'' (Some ex_clan) (Some ex_current_war) (Some ex_war_log)
      = Inr (Report r)" by (auto simp: ex_war_log_def)
  have "roster_tags ex_clan = {''#A''}"
    by (simp add: roster_tags_def ex_clan_def get_memberList_def)
  with registry_keys [OF r] show ?thesis
    unfolding report_registry_Report [OF r] ex_log_participants
    by (auto simp: mk_participant_def)
qed

text \<open>
  As stated, C1 fails: a logged participant without a tag field puts the key \<open>None\<close>
  into the registry, which is a tag of neither source.
\<close>

theorem registry_keys_counterexample:
  "dom (report_registry
     (generate_html_for_clan ''#C'' (Some ex_clan) (Some ex_current_war) (Some ex_untagged_log)))
   \<noteq> Some ` (roster_tags ex_clan
              \<union> Option.these (p_tag ` set (log_participants ''#C'' ex_untagged_log)))"
proof -
  have "report_registry
     (generate_html_for_clan ''#C'' (Some ex_clan) (Some ex_current_war) (Some ex_untagged_log))
     None \<noteq> None"
    by (simp add: report_registry_def generate_html_for_clan_def clan_data_truthy_def
        current_war_data_truthy_def war_log_data_truthy_def ex_clan_def ex_current_war_def
        ex_untagged_log_def get_memberList_def get_items_def after_wars_def
        initial_registry_def clan_participants_def mk_participant_def mk_war_def
        all_participants_def add_former_members_def standing_participants_def
        get_standings_def is_clan_standing_def clan_tag_of_def enumerate_eq_zip
        war_ids_def process_war_def py_nth_def war_benchmark_def TOP_CLANS_FOR_BENCHMARK_def
        war_participants_def zero_history_def record_participants_key tagged_def)
  then have "None \<in> dom (report_registry
     (generate_html_for_clan ''#C'' (Some ex_clan) (Some ex_current_war) (Some ex_untagged_log)))"
    by (simp add: dom_def)
  moreover have "None \<notin> Some ` (roster_tags ex_clan
              \<union> Option.these (p_tag ` set (log_participants ''#C'' ex_untagged_log)))"
    by simp
  ultimately show ?thesis by metis
qed

lemma entry_of_absent:
  "k \<notin> p_tag ` set ps \<Longrightarrow> entry_of k ps = \<lparr>fame = 0, decksUsed = 0\<rparr>"
proof -
  assume "k \<notin> p_tag ` set ps"
  then have "tagged k ps = []" by (auto simp: tagged_def filter_empty_conv)
  then show ?thesis by (simp add: entry_of_def)
qed

lemma logged_wars_nth:
  "i < length ws \<Longrightarrow>
     logged_wars clan_tag ws ! i = (war_ids ws ! i, war_participants clan_tag (ws ! i))"
  by (simp add: logged_wars_def nth_enumerate_eq)

lemma report_history:
  assumes "generate_html_for_clan clan_tag (Some cd) (Some cwd) (Some wld) = Inr (Report r)"
    and "player_stats r k = Some pl"
  shows "dom (war_history pl) = set (war_ids (get_items wld))"
    and "i < length (get_items wld) \<Longrightarrow>
      war_history pl (war_ids (get_items wld) ! i)
        = Some (entry_of k (war_participants clan_tag (get_items wld ! i)))"
proof -
  from report_player [OF assms(1)] obtain reg0 where
    i: "initial_registry clan_tag cd cwd wld = Inr reg0" and
    k: "\<forall>k. player_stats r k = map_option
        (\<lambda>pl. foldl (player_after_war k) pl (logged_wars clan_tag (get_items wld))) (reg0 k)"
    by blast
  from k assms(2) obtain pl0 where pl0: "reg0 k = Some pl0" and
    pl: "pl = foldl (player_after_war k) pl0 (logged_wars clan_tag (get_items wld))"
    by (cases "reg0 k") auto
  from initial_registry_blank [OF i pl0] have e: "war_history pl0 = Map.empty"
    by (simp add: blank_def)
  show "dom (war_history pl) = set (war_ids (get_items wld))"
    unfolding pl after_wars_history_dom e map_fst_logged_wars by simp
  assume l: "i < length (get_items wld)"
  have d: "distinct (map fst (logged_wars clan_tag (get_items wld)))"
    unfolding map_fst_logged_wars by (rule distinct_war_ids)
  from l have l': "i < length (logged_wars clan_tag (get_items wld))" by simp
  from after_wars_history_nth [OF d l', of k pl0]
  show "war_history pl (war_ids (get_items wld) ! i)
        = Some (entry_of k (war_participants clan_tag (get_items wld ! i)))"
    unfolding pl by (simp add: logged_wars_nth [OF l])
qed

text \<open>
  Claim C2. After aggregation the war history of every record of the registry, current
  member or former member, has an entry for exactly the identifiers of the war-id list,
  which are pairwise distinct, one for each logged war; the entry for a war is
  \<open>{fame: 0, decksUsed: 0}\<close> when the player's tag does not appear among the
  participants of that war's matching standing (none, when no standing matches).
\<close>

theorem war_history_complete:
  assumes "generate_html_for_clan clan_tag (Some cd) (Some cwd) (Some wld) = Inr (Report r)"
    and "player_stats r k = Some pl"
  shows "dom (war_history pl) = set (report_war_ids r) \<and>
         distinct (report_war_ids r) \<and>
         length (report_war_ids r) = length (get_items wld) \<and>
         (\<forall>i < length (get_items wld).
            k \<notin> p_tag ` set (war_participants clan_tag (get_items wld ! i)) \<longrightarrow>
              war_history pl (report_war_ids r ! i) = Some \<lparr>fame = 0, decksUsed = 0\<rparr>)"
proof -
  from assms(1) have ids: "report_war_ids r = war_ids (get_items wld)"
    by (rule generate_html_for_clan_ReportD)
  have "war_history pl (war_ids (get_items wld) ! i) = Some \<lparr>fame = 0, decksUsed = 0\<rparr>"
    if "i < length (get_items wld)"
      and "k \<notin> p_tag ` set (war_participants clan_tag (get_items wld ! i))" for i
    using report_history(2) [OF assms that(1)] entry_of_absent [OF that(2)] by simp
  then show ?thesis
    unfolding ids using report_history(1) [OF assms] distinct_war_ids by simp
qed

lemma str_nat_1: "str_nat (Suc 0) = ''1''"
  by (subst str_nat.simps) (simp add: digit_char_def)

lemma ex_war_ids: "war_ids (get_items ex_war_log) = [''War 1 (20240101)'']"
  by (simp add: war_ids_def ex_war_log_def get_items_def enumerate_eq_zip war_id_def
      str_nat_1 date_part_def mk_war_def)

text \<open>A roster member who is absent from the only logged war.\<close>

theorem war_history_complete_witness:
  "map_option (\<lambda>pl. (dom (war_history pl), war_history pl ''War 1 (20240101)''))
     (report_registry
        (generate_html_for_clan ''#C'' (Some ex_clan) (Some ex_current_war) (Some ex_untagged_log))
        (Some ''#A''))
   = Some ({''War 1 (20240101)''}, Some \<lparr>fame = 0, decksUsed = 0\<rparr>)"
proof -
  from ex_complete [of ex_untagged_log] obtain r where
    r: "generate_html_for_clan ''#C'' (Some ex_clan) (Some ex_current_war) (Some ex_untagged_log)
      = Inr (Report r)" by (auto simp: ex_untagged_log_def)
  have "roster_tags ex_clan = {''#A''}"
    by (simp add: roster_tags_def ex_clan_def get_memberList_def)
  with report_keys [OF r] have "Some ''#A'' \<in> dom (player_stats r)" by simp
  then obtain pl where pl: "player_stats r (Some ''#A'') = Some pl" by auto
  have ids: "war_ids (get_items ex_untagged_log) = [''War 1 (20240101)'']"
    by (simp add: war_ids_def ex_untagged_log_def get_items_def enumerate_eq_zip war_id_def
      str_nat_1 date_part_def mk_war_def)
  have ids': "report_war_ids r = [''War 1 (20240101)'']"
    using generate_html_for_clan_ReportD [OF r] ids by metis
  have ps: "war_participants ''#C'' (get_items ex_untagged_log ! 0) =
      [\<lparr>p_tag = None, p_name = Some ''Cy'', p_fame = Some 1, p_decksUsed = Some 1\<rparr>]"
    by (simp add: ex_untagged_log_def get_items_def war_participants_def mk_war_def
        get_standings_def is_clan_standing_def clan_tag_of_def clan_participants_def)
  have len: "length (get_items ex_untagged_log) = 1"
    by (simp add: ex_untagged_log_def get_items_def)
  from war_history_complete [OF r pl] show ?thesis
    unfolding report_registry_Report [OF r] pl ids' len by (simp add: ps)
qed

text \<open>
  Claim C10. The current-war overlay, run on a registry whose keys are all strings (as
  the seeded registry's are), raises nothing and keeps the set of keys; of every entry it
  keeps the name, the cumulative totals and the war history, and an entry whose tag is
  not among the current-war participants' tags is unchanged altogether.
\<close>

theorem overlay_current_war_frame:
  assumes "None \<notin> dom reg"
  shows "\<exists>reg'. overlay_current_war reg ps = Inr reg' \<and> dom reg' = dom reg \<and>
     (\<forall>k pl. reg k = Some pl \<longrightarrow>
        (\<exists>pl'. reg' k = Some pl' \<and> name pl' = name pl \<and>
           total_war_fame pl' = total_war_fame pl \<and>
           total_decks_used pl' = total_decks_used pl \<and>
           war_history pl' = war_history pl \<and>
           (k \<notin> p_tag ` set ps \<longrightarrow> pl' = pl)))"
proof -
  from overlay_current_war_frame_aux [OF assms, of ps] obtain reg' where
    r: "overlay_current_war reg ps = Inr reg'" and
    f: "\<forall>k. case reg k of None \<Rightarrow> reg' k = None
           | Some pl \<Rightarrow>
               (\<exists>d f. reg' k = Some (pl\<lparr>current_war_decks_used := d, current_war_fame := f\<rparr>)) \<and>
               (k \<notin> p_tag ` set ps \<longrightarrow> reg' k = Some pl)" by blast
  have "\<exists>pl'. reg' k = Some pl' \<and> name pl' = name pl \<and>
           total_war_fame pl' = total_war_fame pl \<and>
           total_decks_used pl' = total_decks_used pl \<and>
           war_history pl' = war_history pl \<and>
           (k \<notin> p_tag ` set ps \<longrightarrow> pl' = pl)" if "reg k = Some pl" for k pl
    using f [rule_format, of k] that by auto
  with r overlay_current_war_dom [OF assms r] show ?thesis by blast
qed

text \<open>A registry of two members overlaid with one member and one stranger.\<close>

theorem overlay_current_war_frame_witness:
  "\<exists>reg'. overlay_current_war
       [Some ''#A'' \<mapsto> new_player ''Ann'', Some ''#B'' \<mapsto> new_player ''Bea'']
       [mk_participant ''#A'' ''Ann'' 100 2, mk_participant ''#Z'' ''Zed'' 50 1] = Inr reg' \<and>
     dom reg' = {Some ''#A'', Some ''#B''} \<and>
     reg' (Some ''#B'') = Some (new_player ''Bea'') \<and>
     map_option name (reg' (Some ''#A'')) = Some ''Ann''"
proof -
  have "None \<notin> dom [Some ''#A'' \<mapsto> new_player ''Ann'', Some ''#B'' \<mapsto> new_player ''Bea'']"
    by simp
  from overlay_current_war_frame [OF this,
      of "[mk_participant ''#A'' ''Ann'' 100 2, mk_participant ''#Z'' ''Zed'' 50 1]"]
  obtain reg' where
    ov: "overlay_current_war
      [Some ''#A'' \<mapsto> new_player ''Ann'', Some ''#B'' \<mapsto> new_player ''Bea'']
      [mk_participant ''#A'' ''Ann'' 100 2, mk_participant ''#Z'' ''Zed'' 50 1] = Inr reg'" and
    d: "dom reg' = dom [Some ''#A'' \<mapsto> new_player ''Ann'', Some ''#B'' \<mapsto> new_player ''Bea'']" and
    f: "\<forall>k pl. [Some ''#A'' \<mapsto> new_player ''Ann'', Some ''#B'' \<mapsto> new_player ''Bea''] k = Some pl \<longrightarrow>
        (\<exists>pl'. reg' k = Some pl' \<and> name pl' = name pl \<and>
           total_war_fame pl' = total_war_fame pl \<and>
           total_decks_used pl' = total_decks_used pl \<and>
           war_history pl' = war_history pl \<and>
           (k \<notin> p_tag ` set [mk_participant ''#A'' ''Ann'' 100 2, mk_participant ''#Z'' ''Zed'' 50 1]
              \<longrightarrow> pl' = pl))"
    by blast
  from f [rule_format, of "Some ''#B''" "new_player ''Bea''"]
  have b: "reg' (Some ''#B'') = Some (new_player ''Bea'')"
    by (auto simp: mk_participant_def)
  from f [rule_format, of "Some ''#A''" "new_player ''Ann''"]
  have a: "map_option name (reg' (Some ''#A'')) = Some ''Ann''"
    by (auto simp: new_player_def)
  from d have "dom reg' = {Some ''#A'', Some ''#B''}" by auto
  with ov a b show ?thesis by blast
qed

text \<open>
  Claim C5, as amended. The report is the error fragment exactly when at least one of
  the three payloads is false in Python's sense: the failure sentinel \<open>None\<close> or an
  empty JSON object. On that path nothing is aggregated; otherwise the aggregation runs.
\<close>

theorem error_fragment_iff_falsy:
  "generate_html_for_clan clan_tag clan_data current_war_data war_log_data = Inr ErrorFragment
     \<longleftrightarrow> \<not> (clan_data_truthy clan_data \<and> current_war_data_truthy current_war_data
              \<and> war_log_data_truthy war_log_data)"
proof (cases "clan_data_truthy clan_data \<and> current_war_data_truthy current_war_data
              \<and> war_log_data_truthy war_log_data")
  case False
  then show ?thesis by (simp add: generate_html_for_clan_def)
next
  case True
  then obtain cd cwd wld where
    "clan_data = Some cd" "current_war_data = Some cwd" "war_log_data = Some wld"
    by (auto simp: clan_data_truthy_def current_war_data_truthy_def war_log_data_truthy_def
        split: option.splits)
  with True show ?thesis
    by (auto simp: generate_html_for_clan_def split: sum.splits prod.splits)
qed

text \<open>A failed clan-info fetch, a failed current-war fetch, and three good payloads.\<close>

theorem error_fragment_iff_falsy_witness:
  "generate_html_for_clan ''#C'' None (Some ex_current_war) (Some ex_war_log) = Inr ErrorFragment \<and>
   generate_html_for_clan ''#C'' (Some ex_untagged_clan) None (Some ex_war_log) = Inr ErrorFragment \<and>
   generate_html_for_clan ''#C'' (Some ex_clan) (Some ex_current_war) (Some ex_war_log)
     \<noteq> Inr ErrorFragment"
  using error_fragment_iff_falsy [of "''#C''" None "Some ex_current_war" "Some ex_war_log"]
    error_fragment_iff_falsy [of "''#C''" "Some ex_untagged_clan" None "Some ex_war_log"]
    error_fragment_iff_falsy [of "''#C''" "Some ex_clan" "Some ex_current_war" "Some ex_war_log"]
  by (simp add: clan_data_truthy_def current_war_data_truthy_def war_log_data_truthy_def
      ex_clan_def ex_current_war_def ex_war_log_def)

text \<open>
  As stated, C5 fails: an empty but valid clan-info object, fetched without failure, is
  not aggregated but reported as an error.
\<close>

theorem empty_payload_counterexample:
  "generate_html_for_clan ''#C'' (Some ex_empty_clan) (Some ex_current_war) (Some ex_war_log)
     = Inr ErrorFragment"
  by (simp add: generate_html_for_clan_def clan_data_truthy_def ex_empty_clan_def)

text \<open>
  Claim C6 says that an absent nested field never makes the aggregation raise. For a
  roster entry without a tag the subscript \<open>member['tag']\<close> raises \<open>KeyError\<close>,
  where every other field is read through \<open>get\<close> with a default.
\<close>

theorem member_without_tag_raises:
  "generate_html_for_clan ''#C'' (Some ex_untagged_clan) (Some ex_current_war) (Some ex_war_log)
     = Inl (KeyError ''tag'')"
  by (simp add: generate_html_for_clan_def clan_data_truthy_def current_war_data_truthy_def
      war_log_data_truthy_def ex_untagged_clan_def ex_current_war_def ex_war_log_def
      get_memberList_def)

lemma tagged_distinct:
  "distinct (map p_tag ps) \<Longrightarrow> tagged k ps = [] \<or> (\<exists>p. tagged k ps = [p])"
proof (induction ps)
  case Nil
  show ?case by (simp add: tagged_def)
next
  case (Cons p ps)
  from Cons.prems have n: "p_tag p \<notin> p_tag ` set ps" and d: "distinct (map p_tag ps)"
    by simp_all
  show ?case
  proof (cases "p_tag p = k")
    case True
    have "\<forall>x \<in> set ps. p_tag x \<noteq> k"
    proof
      fix x assume "x \<in> set ps"
      then have "p_tag x \<in> p_tag ` set ps" by (rule imageI)
      with n True show "p_tag x \<noteq> k" by metis
    qed
    then have "tagged k ps = []" by (simp add: tagged_def filter_empty_conv)
    with True show ?thesis by (simp add: tagged_def)
  next
    case False
    with Cons.IH [OF d] show ?thesis by (simp add: tagged_def)
  qed
qed

lemma tagged_single:
  assumes "distinct (map p_tag ps)" and "p \<in> set ps" and "p_tag p = k"
  shows "tagged k ps = [p]"
proof -
  from assms(2,3) have m: "p \<in> set (tagged k ps)" by (simp add: tagged_def)
  from tagged_distinct [OF assms(1), of k] m show ?thesis by auto
qed

lemma sum_tagged_fame:
  "distinct (map p_tag ps) \<Longrightarrow> sum_list (map get_fame (tagged k ps)) = fame (entry_of k ps)"
  using tagged_distinct [of ps k] by (auto simp: entry_of_def)

lemma sum_tagged_decks:
  "distinct (map p_tag ps) \<Longrightarrow>
     sum_list (map get_decksUsed (tagged k ps)) = decksUsed (entry_of k ps)"
  using tagged_distinct [of ps k] by (auto simp: entry_of_def)

lemma report_totals:
  assumes "generate_html_for_clan clan_tag (Some cd) (Some cwd) (Some wld) = Inr (Report r)"
    and "player_stats r k = Some pl"
  shows "total_war_fame pl =
      sum_list (map (\<lambda>wp. sum_list (map get_fame (tagged k (snd wp))))
        (logged_wars clan_tag (get_items wld)))"
    and "total_decks_used pl =
      sum_list (map (\<lambda>wp. sum_list (map get_decksUsed (tagged k (snd wp))))
        (logged_wars clan_tag (get_items wld)))"
    and "k \<notin> Some ` roster_tags cd \<Longrightarrow> current_war_fame pl = 0 \<and> current_war_decks_used pl = 0"
proof -
  from report_player [OF assms(1)] obtain reg0 where
    i: "initial_registry clan_tag cd cwd wld = Inr reg0" and
    k: "\<forall>k. player_stats r k = map_option
        (\<lambda>pl. foldl (player_after_war k) pl (logged_wars clan_tag (get_items wld))) (reg0 k)"
    by blast
  from k assms(2) obtain pl0 where pl0: "reg0 k = Some pl0" and
    pl: "pl = foldl (player_after_war k) pl0 (logged_wars clan_tag (get_items wld))"
    by (cases "reg0 k") auto
  from initial_registry_blank [OF i pl0]
  have z: "total_war_fame pl0 = 0" "total_decks_used pl0 = 0" by (simp_all add: blank_def)
  show "total_war_fame pl =
      sum_list (map (\<lambda>wp. sum_list (map get_fame (tagged k (snd wp))))
        (logged_wars clan_tag (get_items wld)))"
    unfolding pl after_wars_fame z by simp
  show "total_decks_used pl =
      sum_list (map (\<lambda>wp. sum_list (map get_decksUsed (tagged k (snd wp))))
        (logged_wars clan_tag (get_items wld)))"
    unfolding pl after_wars_decks z by simp
  assume "k \<notin> Some ` roster_tags cd"
  from initial_registry_former [OF i pl0 this] have "pl0 = new_player former_member" .
  then show "current_war_fame pl = 0 \<and> current_war_decks_used pl = 0"
    using after_wars_current [of k pl0 "logged_wars clan_tag (get_items wld)"]
    by (simp add: pl new_player_def)
qed

lemma report_history_logged:
  assumes "generate_html_for_clan clan_tag (Some cd) (Some cwd) (Some wld) = Inr (Report r)"
    and "player_stats r k = Some pl"
    and "wp \<in> set (logged_wars clan_tag (get_items wld))"
  shows "history_entry pl (fst wp) = entry_of k (snd wp)"
proof -
  from assms(3) obtain i where i: "i < length (get_items wld)"
    and wp: "wp = logged_wars clan_tag (get_items wld) ! i"
    by (auto simp: in_set_conv_nth)
  from report_history(2) [OF assms(1,2) i] show ?thesis
    unfolding wp logged_wars_nth [OF i] by (simp add: history_entry_def)
qed

lemma logged_wars_participants:
  assumes "wp \<in> set (logged_wars clan_tag ws)"
  shows "\<exists>w \<in> set ws. snd wp = war_participants clan_tag w"
proof -
  from assms have "snd wp \<in> set (map snd (logged_wars clan_tag ws))" by simp
  then show ?thesis unfolding map_snd_logged_wars by auto
qed

lemma sum_list_single:
  fixes f :: "'a \<Rightarrow> int"
  assumes "i < length xs" and "\<forall>j < length xs. j \<noteq> i \<longrightarrow> f (xs ! j) = 0"
  shows "sum_list (map f xs) = f (xs ! i)"
proof -
  have "sum_list (map f xs) = (\<Sum>j = 0..<length xs. f (xs ! j))"
    by (simp add: sum_list_sum_nth)
  also have "\<dots> = (\<Sum>j = 0..<length xs. if j = i then f (xs ! i) else 0)"
    using assms(2) by (intro sum.cong) auto
  also have "\<dots> = f (xs ! i)" using assms(1) by (simp add: sum.delta)
  finally show ?thesis .
qed

text \<open>
  Claim C7, as amended. When no key occurs twice among the participants of a logged
  war, that is no tag twice and at most one participant without a tag field, the
  cumulative fame and the cumulative attacks of every record equal the sums of its
  per-war history entries over the war-id list. A tag that is not in the roster and
  occurs in exactly one logged war has cumulative totals equal to that participant's
  values, and zero current-war fields.
\<close>

theorem cumulative_totals:
  assumes "generate_html_for_clan clan_tag (Some cd) (Some cwd) (Some wld) = Inr (Report r)"
    and "player_stats r k = Some pl"
    and "\<forall>w \<in> set (get_items wld). distinct (map p_tag (war_participants clan_tag w))"
  shows "total_war_fame pl
           = sum_list (map (\<lambda>wid. fame (history_entry pl wid)) (report_war_ids r)) \<and>
         total_decks_used pl
           = sum_list (map (\<lambda>wid. decksUsed (history_entry pl wid)) (report_war_ids r)) \<and>
         (\<forall>i p. i < length (get_items wld) \<and>
            p \<in> set (war_participants clan_tag (get_items wld ! i)) \<and> p_tag p = k \<and>
            k \<notin> Some ` roster_tags cd \<and>
            (\<forall>j < length (get_items wld). j \<noteq> i \<longrightarrow>
               k \<notin> p_tag ` set (war_participants clan_tag (get_items wld ! j)))
            \<longrightarrow> total_war_fame pl = get_fame p \<and> total_decks_used pl = get_decksUsed p \<and>
                current_war_fame pl = 0 \<and> current_war_decks_used pl = 0)"
proof (intro conjI allI impI)
  let ?ws = "get_items wld"
  let ?L = "logged_wars clan_tag ?ws"
  from assms(1) have ids: "report_war_ids r = map fst ?L"
    unfolding map_fst_logged_wars by (rule generate_html_for_clan_ReportD)
  have dist: "distinct (map p_tag (snd wp))" if "wp \<in> set ?L" for wp
    using logged_wars_participants [OF that] assms(3) by auto
  have "map (\<lambda>wp. sum_list (map get_fame (tagged k (snd wp)))) ?L
      = map (\<lambda>wp. fame (history_entry pl (fst wp))) ?L"
    by (rule map_cong [OF refl])
      (simp add: sum_tagged_fame [OF dist] report_history_logged [OF assms(1,2)])
  then have "sum_list (map (\<lambda>wp. sum_list (map get_fame (tagged k (snd wp)))) ?L)
      = sum_list (map (\<lambda>wp. fame (history_entry pl (fst wp))) ?L)"
    by (rule arg_cong)
  then show "total_war_fame pl
      = sum_list (map (\<lambda>wid. fame (history_entry pl wid)) (report_war_ids r))"
    unfolding report_totals(1) [OF assms(1,2)] ids by (simp add: comp_def)
  have "map (\<lambda>wp. sum_list (map get_decksUsed (tagged k (snd wp)))) ?L
      = map (\<lambda>wp. decksUsed (history_entry pl (fst wp))) ?L"
    by (rule map_cong [OF refl])
      (simp add: sum_tagged_decks [OF dist] report_history_logged [OF assms(1,2)])
  then have "sum_list (map (\<lambda>wp. sum_list (map get_decksUsed (tagged k (snd wp)))) ?L)
      = sum_list (map (\<lambda>wp. decksUsed (history_entry pl (fst wp))) ?L)"
    by (rule arg_cong)
  then show "total_decks_used pl
      = sum_list (map (\<lambda>wid. decksUsed (history_entry pl wid)) (report_war_ids r))"
    unfolding report_totals(2) [OF assms(1,2)] ids by (simp add: comp_def)
next
  fix i p
  let ?ws = "get_items wld"
  let ?L = "logged_wars clan_tag ?ws"
  assume h: "i < length ?ws \<and>
            p \<in> set (war_participants clan_tag (?ws ! i)) \<and> p_tag p = k \<and>
            k \<notin> Some ` roster_tags cd \<and>
            (\<forall>j < length ?ws. j \<noteq> i \<longrightarrow>
               k \<notin> p_tag ` set (war_participants clan_tag (?ws ! j)))"
  then have i: "i < length ?L" by simp
  from h assms(3) have d: "distinct (map p_tag (war_participants clan_tag (?ws ! i)))"
    by simp
  from h have t: "tagged k (snd (?L ! i)) = [p]"
    using tagged_single [OF d, of p k] by (simp add: logged_wars_nth)
  have others: "\<forall>j < length ?L. j \<noteq> i \<longrightarrow> tagged k (snd (?L ! j)) = []"
  proof (intro allI impI)
    fix j assume j: "j < length ?L" "j \<noteq> i"
    with h have "k \<notin> p_tag ` set (war_participants clan_tag (?ws ! j))" by simp
    then show "tagged k (snd (?L ! j)) = []"
      using j(1) by (auto simp: logged_wars_nth tagged_def filter_empty_conv)
  qed
  have f: "total_war_fame pl = get_fame p"
    unfolding report_totals(1) [OF assms(1,2)]
    using sum_list_single [OF i, of "\<lambda>wp. sum_list (map get_fame (tagged k (snd wp)))"]
      others t by simp
  have u: "total_decks_used pl = get_decksUsed p"
    unfolding report_totals(2) [OF assms(1,2)]
    using sum_list_single [OF i, of "\<lambda>wp. sum_list (map get_decksUsed (tagged k (snd wp)))"]
      others t by simp
  from h report_totals(3) [OF assms(1,2)]
  have "current_war_fame pl = 0 \<and> current_war_decks_used pl = 0" by simp
  with f u show "total_war_fame pl = get_fame p" "total_decks_used pl = get_decksUsed p"
    "current_war_fame pl = 0" "current_war_decks_used pl = 0" by simp_all
qed

lemma ex_roster_tags: "roster_tags ex_clan = {''#A''}"
  by (simp add: roster_tags_def ex_clan_def get_memberList_def)

lemma ex_war_participants:
  "map (war_participants ''#C'') (get_items ex_war_log)
     = [[mk_participant ''#A'' ''Ann'' 900 8, mk_participant ''#B'' ''Bob'' 500 4]]"
  by (simp add: ex_war_log_def get_items_def war_participants_def mk_war_def
      get_standings_def is_clan_standing_def clan_tag_of_def clan_participants_def)

text \<open>The departed participant of the only logged war.\<close>

theorem cumulative_totals_witness:
  "map_option
     (\<lambda>pl. (total_war_fame pl, total_decks_used pl, current_war_fame pl,
            current_war_decks_used pl))
     (report_registry
        (generate_html_for_clan ''#C'' (Some ex_clan) (Some ex_current_war) (Some ex_war_log))
        (Some ''#B''))
   = Some (500, 4, 0, 0)"
proof -
  from ex_complete [of ex_war_log] obtain r where
    r: "generate_html_for_clan ''#C'' (Some ex_clan) (Some ex_current_war) (Some ex_war_log)
      = Inr (Report r)" by (auto simp: ex_war_log_def)
  have "Some ''#B'' \<in> dom (player_stats r)"
    unfolding report_keys [OF r] ex_log_participants by (simp add: mk_participant_def)
  then obtain pl where pl: "player_stats r (Some ''#B'') = Some pl" by auto
  have len: "length (get_items ex_war_log) = 1"
    by (simp add: ex_war_log_def get_items_def)
  have items: "get_items ex_war_log = [get_items ex_war_log ! 0]"
    by (simp add: ex_war_log_def get_items_def)
  have wp0: "war_participants ''#C'' (get_items ex_war_log ! 0)
      = [mk_participant ''#A'' ''Ann'' 900 8, mk_participant ''#B'' ''Bob'' 500 4]"
    using ex_war_participants by (subst (asm) items) simp
  have dist: "\<forall>w \<in> set (get_items ex_war_log). distinct (map p_tag (war_participants ''#C'' w))"
    by (subst items) (simp add: wp0 mk_participant_def)
  note c = cumulative_totals [OF r pl dist, THEN conjunct2, THEN conjunct2, rule_format,
      of 0 "mk_participant ''#B'' ''Bob'' 500 4"]
  have "total_war_fame pl = 500 \<and> total_decks_used pl = 4 \<and>
      current_war_fame pl = 0 \<and> current_war_decks_used pl = 0"
    using c
    by (simp add: len wp0 ex_roster_tags mk_participant_def get_fame_def get_decksUsed_def)
  then show ?thesis
    unfolding report_registry_Report [OF r] pl by simp
qed

lemma singleton_nth: "length xs = Suc 0 \<Longrightarrow> xs = [xs ! 0]"
  by (cases xs) auto

text \<open>
  As stated, C7 fails: in a war with two participants without a tag field no tag occurs
  twice, yet both are accumulated under the key \<open>None\<close>, while the history keeps
  the values of the second only.
\<close>

theorem cumulative_totals_counterexample:
  "List.map_filter p_tag
     (concat (map (war_participants ''#C'') (get_items ex_two_untagged_log))) = [] \<and>
   map_option
     (\<lambda>pl. (total_war_fame pl,
            sum_list (map (\<lambda>wid. fame (history_entry pl wid))
              (war_ids (get_items ex_two_untagged_log))),
            total_decks_used pl,
            sum_list (map (\<lambda>wid. decksUsed (history_entry pl wid))
              (war_ids (get_items ex_two_untagged_log)))))
     (report_registry
        (generate_html_for_clan ''#C'' (Some ex_clan) (Some ex_current_war)
           (Some ex_two_untagged_log))
        None)
   = Some (300, 200, 3, 2)"
proof -
  let ?ws = "get_items ex_two_untagged_log"
  let ?u1 = "\<lparr>p_tag = None, p_name = Some ''Cy'', p_fame = Some 100, p_decksUsed = Some 1\<rparr>"
  let ?u2 = "\<lparr>p_tag = None, p_name = Some ''Di'', p_fame = Some 200, p_decksUsed = Some 2\<rparr>"
  from ex_complete [of ex_two_untagged_log] obtain r where
    r: "generate_html_for_clan ''#C'' (Some ex_clan) (Some ex_current_war)
          (Some ex_two_untagged_log) = Inr (Report r)"
    by (auto simp: ex_two_untagged_log_def)
  have lp: "log_participants ''#C'' ex_two_untagged_log = [?u1, ?u2]"
    by (simp add: log_participants_def ex_two_untagged_log_def get_items_def
        standing_participants_def mk_war_def get_standings_def is_clan_standing_def
        clan_tag_of_def clan_participants_def)
  have "None \<in> dom (player_stats r)"
    unfolding report_keys [OF r] lp by simp
  then obtain pl where pl: "player_stats r None = Some pl" by auto
  have len: "length ?ws = Suc 0"
    by (simp add: ex_two_untagged_log_def get_items_def)
  have ws: "?ws = [?ws ! 0]" using len by (rule singleton_nth)
  have wps: "map (war_participants ''#C'') ?ws = [[?u1, ?u2]]"
    by (simp add: ex_two_untagged_log_def get_items_def war_participants_def mk_war_def
        get_standings_def is_clan_standing_def clan_tag_of_def clan_participants_def)
  have wp0: "war_participants ''#C'' (?ws ! 0) = [?u1, ?u2]"
    using wps by (subst (asm) ws) simp
  have ids: "war_ids ?ws = [war_ids ?ws ! 0]"
    by (rule singleton_nth) (simp add: len)
  have tags: "List.map_filter p_tag (concat (map (war_participants ''#C'') ?ws)) = []"
    unfolding wps by (simp add: List.map_filter_def)
  have "sum_list (map (\<lambda>wp. sum_list (map get_fame (tagged None (snd wp))))
          (logged_wars ''#C'' ?ws))
      = sum_list (map (\<lambda>ps. sum_list (map get_fame (tagged None ps)))
          (map snd (logged_wars ''#C'' ?ws)))"
    by (simp add: comp_def)
  also have "\<dots> = 300"
    unfolding map_snd_logged_wars wps by (simp add: tagged_def get_fame_def)
  finally have f: "total_war_fame pl = 300"
    unfolding report_totals(1) [OF r pl, symmetric] .
  have "sum_list (map (\<lambda>wp. sum_list (map get_decksUsed (tagged None (snd wp))))
          (logged_wars ''#C'' ?ws))
      = sum_list (map (\<lambda>ps. sum_list (map get_decksUsed (tagged None ps)))
          (map snd (logged_wars ''#C'' ?ws)))"
    by (simp add: comp_def)
  also have "\<dots> = 3"
    unfolding map_snd_logged_wars wps by (simp add: tagged_def get_decksUsed_def)
  finally have u: "total_decks_used pl = 3"
    unfolding report_totals(2) [OF r pl, symmetric] .
  have "0 < length ?ws" using len by simp
  from report_history(2) [OF r pl this]
  have "war_history pl (war_ids ?ws ! 0) = Some (entry_of None [?u1, ?u2])"
    unfolding wp0 .
  then have h: "history_entry pl (war_ids ?ws ! 0) = \<lparr>fame = 200, decksUsed = 2\<rparr>"
    by (simp add: history_entry_def entry_of_def tagged_def get_fame_def get_decksUsed_def)
  have hf: "sum_list (map (\<lambda>wid. fame (history_entry pl wid)) (war_ids ?ws)) = 200"
    by (subst ids) (simp add: h)
  have hd: "sum_list (map (\<lambda>wid. decksUsed (history_entry pl wid)) (war_ids ?ws)) = 2"
    by (subst ids) (simp add: h)
  show ?thesis
    unfolding report_registry_Report [OF r] pl using tags f u hf hd by simp
qed

subsection \<open>Names of former members\<close>

lemma former_member_append: "former_member = ''Former Member'' @ '' (*)''"
  by (simp add: former_member_def)

lemma fmt_name_placeholder:
  "fmt_name p = former_member \<longleftrightarrow> p_name p = Some ''Former Member''"
proof (cases "p_name p")
  case None
  then show ?thesis by (simp add: fmt_name_def former_member_def)
next
  case (Some n)
  then show ?thesis
    by (simp only: fmt_name_def former_member_append option.case append_same_eq
        option.inject)
qed

lemma foldl_name_update_stable:
  "nm \<noteq> former_member \<Longrightarrow> foldl name_update nm qs = nm"
  by (induction qs) (simp_all add: name_update_def)

lemma foldl_name_update_first:
  "(\<forall>q. find P xs = Some q \<longrightarrow> fmt_name q \<noteq> former_member) \<Longrightarrow>
   foldl name_update former_member (filter P xs) =
     (case find P xs of None \<Rightarrow> former_member | Some q \<Rightarrow> fmt_name q)"
proof (induction xs)
  case Nil
  show ?case by simp
next
  case (Cons x xs)
  show ?case
  proof (cases "P x")
    case True
    with Cons.prems have ne: "fmt_name x \<noteq> former_member" by simp
    have "foldl name_update former_member (filter P (x # xs))
        = foldl name_update (fmt_name x) (filter P xs)"
      using True by (simp add: name_update_def)
    also have "\<dots> = fmt_name x" using ne by (rule foldl_name_update_stable)
    finally show ?thesis using True by simp
  next
    case False
    with Cons show ?thesis by simp
  qed
qed

lemma find_append_Some: "find P xs = Some q \<Longrightarrow> find P (xs @ ys) = Some q"
  by (induction xs) (auto split: if_splits)

lemma first_match_prefix:
  assumes "first_match k (concat (map f (take n ws))) = Some q"
  shows "first_match k (concat (map f ws)) = Some q"
proof -
  have "ws = take n ws @ drop n ws" by simp
  then have "concat (map f ws) = concat (map f (take n ws)) @ concat (map f (drop n ws))"
    by (metis concat_append map_append)
  then show ?thesis using assms unfolding first_match_def by (simp add: find_append_Some)
qed

lemma former_name_fold:
  assumes "initial_registry clan_tag cd cwd wld = Inr reg0"
    and "k \<in> dom reg0" and "k \<notin> Some ` roster_tags cd"
  shows "name_after n clan_tag cd cwd wld k =
     Some (foldl name_update former_member
       (tagged k (concat (map (war_participants clan_tag) (take n (get_items wld))))))"
proof -
  from assms(2) obtain pl0 where pl0: "reg0 k = Some pl0" by auto
  from initial_registry_former [OF assms(1) pl0 assms(3)]
  have nm: "name pl0 = former_member" by (simp add: new_player_def)
  from after_wars_key [OF assms(1), of n] obtain reg bms where
    aw: "after_wars n clan_tag cd cwd wld = Inr (reg, bms)" and
    k: "\<forall>k. reg k = map_option
        (\<lambda>pl. foldl (player_after_war k) pl (take n (logged_wars clan_tag (get_items wld))))
        (reg0 k)" by blast
  have "map snd (take n (logged_wars clan_tag (get_items wld)))
      = take n (map snd (logged_wars clan_tag (get_items wld)))"
    by (simp add: take_map)
  also have "\<dots> = map (war_participants clan_tag) (take n (get_items wld))"
    unfolding map_snd_logged_wars by (simp add: take_map)
  finally have s: "map snd (take n (logged_wars clan_tag (get_items wld)))
      = map (war_participants clan_tag) (take n (get_items wld))" .
  have "name_after n clan_tag cd cwd wld k = map_option name (reg k)"
    using aw by (simp add: name_after_def)
  also have "\<dots> = Some (name (foldl (player_after_war k) pl0
      (take n (logged_wars clan_tag (get_items wld)))))"
    using k pl0 by simp
  finally show ?thesis unfolding after_wars_name s nm .
qed

text \<open>
  Claim C8, as amended. A registry entry for a tag outside the roster starts with the
  placeholder name. Provided the first war-log participant matched to the tag, in
  processing order, does not report the name \<open>Former Member\<close>, the entry's name
  after any number of processed wars is the placeholder as long as no participant has
  been matched, and from the first match on it is that participant's reported name with
  the former-member suffix, whatever later wars report.
\<close>

theorem former_member_name:
  assumes "generate_html_for_clan clan_tag (Some cd) (Some cwd) (Some wld) = Inr (Report r)"
    and "k \<in> dom (player_stats r)" and "k \<notin> Some ` roster_tags cd"
    and "\<forall>p. first_match k (concat (map (war_participants clan_tag) (get_items wld))) = Some p
           \<longrightarrow> p_name p \<noteq> Some ''Former Member''"
  shows "name_after 0 clan_tag cd cwd wld k = Some former_member \<and>
         (\<forall>n. name_after n clan_tag cd cwd wld k =
            Some (case first_match k
                         (concat (map (war_participants clan_tag) (take n (get_items wld)))) of
                    None \<Rightarrow> former_member
                  | Some p \<Rightarrow> fmt_name p)) \<and>
         map_option name (player_stats r k)
           = name_after (length (get_items wld)) clan_tag cd cwd wld k"
proof (intro conjI allI)
  from report_player [OF assms(1)] obtain reg0 where
    i: "initial_registry clan_tag cd cwd wld = Inr reg0" and
    k: "\<forall>k. player_stats r k = map_option
        (\<lambda>pl. foldl (player_after_war k) pl (logged_wars clan_tag (get_items wld))) (reg0 k)"
    by blast
  from assms(2) k have d: "k \<in> dom reg0" by (cases "reg0 k") auto
  note fold = former_name_fold [OF i d assms(3)]
  show "name_after 0 clan_tag cd cwd wld k = Some former_member"
    unfolding fold by (simp add: tagged_def)
  show "name_after n clan_tag cd cwd wld k =
            Some (case first_match k
                         (concat (map (war_participants clan_tag) (take n (get_items wld)))) of
                    None \<Rightarrow> former_member
                  | Some p \<Rightarrow> fmt_name p)" for n
  proof -
    have "\<forall>q. find (\<lambda>p. p_tag p = k)
          (concat (map (war_participants clan_tag) (take n (get_items wld)))) = Some q
        \<longrightarrow> fmt_name q \<noteq> former_member"
    proof (intro allI impI)
      fix q
      assume "find (\<lambda>p. p_tag p = k)
          (concat (map (war_participants clan_tag) (take n (get_items wld)))) = Some q"
      then have "first_match k
          (concat (map (war_participants clan_tag) (take n (get_items wld)))) = Some q"
        by (simp add: first_match_def)
      then have "first_match k (concat (map (war_participants clan_tag) (get_items wld)))
          = Some q" by (rule first_match_prefix)
      with assms(4) have "p_name q \<noteq> Some ''Former Member''" by blast
      then show "fmt_name q \<noteq> former_member" by (simp add: fmt_name_placeholder)
    qed
    from foldl_name_update_first [OF this] show ?thesis
      unfolding fold by (simp add: tagged_def first_match_def)
  qed
  from assms(1) have "after_wars (length (get_items wld)) clan_tag cd cwd wld
       = Inr (player_stats r, war_benchmarks r)"
    by (rule generate_html_for_clan_ReportD)
  then show "map_option name (player_stats r k)
           = name_after (length (get_items wld)) clan_tag cd cwd wld k"
    by (simp add: name_after_def)
qed

text \<open>The departed participant Bob, before and after the only logged war.\<close>

theorem former_member_name_witness:
  "name_after 0 ''#C'' ex_clan ex_current_war ex_war_log (Some ''#B'')
     = Some ''Former Member (*)'' \<and>
   name_after 1 ''#C'' ex_clan ex_current_war ex_war_log (Some ''#B'') = Some ''Bob (*)''"
proof -
  from ex_complete [of ex_war_log] obtain r where
    r: "generate_html_for_clan ''#C'' (Some ex_clan) (Some ex_current_war) (Some ex_war_log)
      = Inr (Report r)" by (auto simp: ex_war_log_def)
  have d: "Some ''#B'' \<in> dom (player_stats r)"
    unfolding report_keys [OF r] ex_log_participants by (simp add: mk_participant_def)
  have n: "Some ''#B'' \<notin> Some ` roster_tags ex_clan"
    by (simp add: ex_roster_tags)
  have items: "take 1 (get_items ex_war_log) = get_items ex_war_log"
    by (simp add: ex_war_log_def get_items_def)
  have f: "\<forall>p. first_match (Some ''#B'')
        (concat (map (war_participants ''#C'') (get_items ex_war_log))) = Some p
      \<longrightarrow> p_name p \<noteq> Some ''Former Member''"
    unfolding ex_war_participants by (auto simp: first_match_def mk_participant_def)
  from former_member_name [OF r d n f]
  have 0: "name_after 0 ''#C'' ex_clan ex_current_war ex_war_log (Some ''#B'')
      = Some former_member"
    and 1: "name_after 1 ''#C'' ex_clan ex_current_war ex_war_log (Some ''#B'') =
      Some (case first_match (Some ''#B'')
                   (concat (map (war_participants ''#C'') (take 1 (get_items ex_war_log)))) of
              None \<Rightarrow> former_member
            | Some p \<Rightarrow> fmt_name p)"
    by blast+
  from 0 1 show ?thesis
    unfolding items ex_war_participants
    by (simp add: first_match_def mk_participant_def fmt_name_def former_member_def)
qed

lemma ex_initial:
  "\<exists>reg0. initial_registry ''#C'' ex_clan ex_current_war wld = Inr reg0"
  by (rule initial_registry_complete) (simp add: ex_clan_def get_memberList_def)

text \<open>
  As stated, C8 fails: a player who reported the name \<open>Former Member\<close> in the first
  war is renamed by the second war, because the name with its suffix equals the
  placeholder.
\<close>

theorem former_member_name_counterexample:
  "name_after 1 ''#C'' ex_clan ex_current_war ex_renamed_log (Some ''#P'')
     = Some ''Former Member (*)'' \<and>
   name_after 2 ''#C'' ex_clan ex_current_war ex_renamed_log (Some ''#P'') = Some ''Bob (*)''"
proof -
  from ex_initial [of ex_renamed_log] obtain reg0 where
    i: "initial_registry ''#C'' ex_clan ex_current_war ex_renamed_log = Inr reg0" by blast
  have lp: "log_participants ''#C'' ex_renamed_log
      = [mk_participant ''#P'' ''Former Member'' 700 8, mk_participant ''#P'' ''Bob'' 600 8]"
    by (simp add: log_participants_def ex_renamed_log_def get_items_def
        standing_participants_def mk_war_def get_standings_def is_clan_standing_def
        clan_tag_of_def clan_participants_def)
  have d: "Some ''#P'' \<in> dom reg0"
    unfolding initial_registry_dom [OF i] lp by (simp add: mk_participant_def)
  have n: "Some ''#P'' \<notin> Some ` roster_tags ex_clan"
    by (simp add: ex_roster_tags)
  have wp: "map (war_participants ''#C'') (get_items ex_renamed_log)
      = [[mk_participant ''#P'' ''Former Member'' 700 8], [mk_participant ''#P'' ''Bob'' 600 8]]"
    by (simp add: ex_renamed_log_def get_items_def war_participants_def mk_war_def
        get_standings_def is_clan_standing_def clan_tag_of_def clan_participants_def)
  have t: "map (war_participants ''#C'') (take n (get_items ex_renamed_log))
      = take n (map (war_participants ''#C'') (get_items ex_renamed_log))" for n
    by (simp add: take_map)
  show ?thesis
    unfolding former_name_fold [OF i d n] t wp
    by (simp add: tagged_def mk_participant_def name_update_def fmt_name_def
        former_member_def)
qed

end
